theory Spec2Isabelle
  imports Main "HOL-Library.Finite_Map"
begin

section \<open>Values, maps and the heap\<close>

text \<open>
  Go maps are reference types: a value of type \<^verbatim>\<open>mapContext\<close> or \<^verbatim>\<open>Context\<close>
  (both \<^verbatim>\<open>map[string]interface{}\<close>) is either nil or a reference to a hash table that
  every copy of the value shares. A map value is therefore an optional address, and the
  tables live in a heap. Tables are finite maps. The heap is a total function together
  with the next free address; a map literal takes the next free address.
\<close>

type_synonym addr = nat

type_synonym mapContext = "addr option"

text \<open>
  A value of type \<^verbatim>\<open>interface{}\<close>: nil, a scalar, or a map (such as the metadata map
  stored under the key pongo2).
\<close>

datatype val = VNil | VBool bool | VInt int | VString string | VMap mapContext

type_synonym gomap = "(string, val) fmap"

type_synonym heap = "addr \<Rightarrow> gomap"

text \<open>The two run-time panics the code of this file can raise.\<close>

datatype panic = NilPointerDereference | AssignmentToNilMap

text \<open>
  A value of the interface type \<^verbatim>\<open>context\<close>: the nil interface, a \<^verbatim>\<open>mapContext\<close>
  (possibly the nil map) or a \<^verbatim>\<open>mergedContext\<close> struct, which holds two interface
  values a and b and is itself immutable.
\<close>

datatype icontext = NilContext | MapContext mapContext | MergedContext icontext icontext

section \<open>mapContext\<close>

text \<open>Reading a nil map yields the zero value and false.\<close>

definition mapContext_GetValue :: "heap \<Rightarrow> mapContext \<Rightarrow> string \<Rightarrow> val \<times> bool" where
  "mapContext_GetValue h m key =
     (case m of
        None \<Rightarrow> (VNil, False)
      | Some p \<Rightarrow> (case fmlookup (h p) key of None \<Rightarrow> (VNil, False) | Some v \<Rightarrow> (v, True)))"

text \<open>Assigning to an entry of a nil map panics.\<close>

definition mapContext_SetValue :: "heap \<Rightarrow> mapContext \<Rightarrow> string \<Rightarrow> val \<Rightarrow> panic + heap" where
  "mapContext_SetValue h m key v =
     (case m of
        None \<Rightarrow> Inl AssignmentToNilMap
      | Some p \<Rightarrow> Inr (h(p := fmupd key v (h p))))"

text \<open>
  The order in which \<^verbatim>\<open>range\<close> visits a map is not specified; each entry is visited
  once. \<open>range_of m kvs\<close> says that \<open>kvs\<close> is one such visit of the table \<open>m\<close>.
\<close>

definition range_of :: "gomap \<Rightarrow> (string \<times> val) list \<Rightarrow> bool" where
  "range_of m kvs =
     (distinct (map fst kvs) \<and> fset_of_list (map fst kvs) = fmdom m \<and>
      list_all (\<lambda>kv. fmlookup m (fst kv) = Some (snd kv)) kvs)"

text \<open>Ranging over a map value: the nil map has no entry to visit.\<close>

definition range_visit :: "heap \<Rightarrow> mapContext \<Rightarrow> (string \<times> val) list \<Rightarrow> bool" where
  "range_visit h m kvs = (case m of None \<Rightarrow> kvs = [] | Some p \<Rightarrow> range_of (h p) kvs)"

text \<open>The body of \<^verbatim>\<open>mapContext.GetIdentifiers\<close>: append every visited key.\<close>

fun mapContext_GetIdentifiers_loop :: "(string \<times> val) list \<Rightarrow> string list \<Rightarrow> string list" where
  "mapContext_GetIdentifiers_loop [] identifiers = identifiers"
| "mapContext_GetIdentifiers_loop (kv # kvs) identifiers =
     mapContext_GetIdentifiers_loop kvs (identifiers @ [fst kv])"

section \<open>mergedContext and the interface methods\<close>

fun GetValue :: "heap \<Rightarrow> icontext \<Rightarrow> string \<Rightarrow> panic + (val \<times> bool)" where
  "GetValue h NilContext key = Inl NilPointerDereference"
| "GetValue h (MapContext m) key = Inr (mapContext_GetValue h m key)"
| "GetValue h (MergedContext a b) key =
     (case GetValue h b key of
        Inl e \<Rightarrow> Inl e
      | Inr r \<Rightarrow> if \<not> snd r then GetValue h a key else Inr r)"

fun SetValue :: "heap \<Rightarrow> icontext \<Rightarrow> string \<Rightarrow> val \<Rightarrow> panic + heap" where
  "SetValue h NilContext key v = Inl NilPointerDereference"
| "SetValue h (MapContext m) key v = mapContext_SetValue h m key v"
| "SetValue h (MergedContext a b) key v = SetValue h b key v"

text \<open>
  \<^verbatim>\<open>GetIdentifiers\<close> ranges over maps, so its result is not a function of the heap:
  it is a relation between the receiver and the outcome. The merged case calls the
  method of each side twice, once for the length test and once for the append;
  \<open>append_identifiers h x ids r\<close> is the statement
  \<^verbatim>\<open>if len(x.GetIdentifiers()) > 0 { ids = append(ids, x.GetIdentifiers()...) }\<close>.
\<close>

inductive GetIdentifiers :: "heap \<Rightarrow> icontext \<Rightarrow> panic + string list \<Rightarrow> bool"
  and append_identifiers :: "heap \<Rightarrow> icontext \<Rightarrow> string list \<Rightarrow> panic + string list \<Rightarrow> bool"
where
  GetIdentifiers_nil_interface:
    "GetIdentifiers h NilContext (Inl NilPointerDereference)"
| GetIdentifiers_map:
    "range_visit h m kvs \<Longrightarrow>
     GetIdentifiers h (MapContext m) (Inr (mapContext_GetIdentifiers_loop kvs []))"
| GetIdentifiers_merged_panic:
    "append_identifiers h a [] (Inl e) \<Longrightarrow> GetIdentifiers h (MergedContext a b) (Inl e)"
| GetIdentifiers_merged:
    "append_identifiers h a [] (Inr ids) \<Longrightarrow> append_identifiers h b ids r \<Longrightarrow>
     GetIdentifiers h (MergedContext a b) r"
| append_identifiers_panic:
    "GetIdentifiers h x (Inl e) \<Longrightarrow> append_identifiers h x ids (Inl e)"
| append_identifiers_skip:
    "GetIdentifiers h x (Inr l) \<Longrightarrow> \<not> length l > 0 \<Longrightarrow> append_identifiers h x ids (Inr ids)"
| append_identifiers_panic2:
    "GetIdentifiers h x (Inr l) \<Longrightarrow> length l > 0 \<Longrightarrow> GetIdentifiers h x (Inl e) \<Longrightarrow>
     append_identifiers h x ids (Inl e)"
| append_identifiers_append:
    "GetIdentifiers h x (Inr l) \<Longrightarrow> length l > 0 \<Longrightarrow> GetIdentifiers h x (Inr l') \<Longrightarrow>
     append_identifiers h x ids (Inr (ids @ l'))"

definition mergeContexts :: "icontext \<Rightarrow> icontext \<Rightarrow> icontext" where
  "mergeContexts a b = MergedContext a b"

text \<open>
  The maps a store can read from, and the map a write through it lands in (none when
  the write panics).
\<close>

fun maps_of :: "icontext \<Rightarrow> addr set" where
  "maps_of NilContext = {}"
| "maps_of (MapContext m) = set_option m"
| "maps_of (MergedContext a b) = maps_of a \<union> maps_of b"

fun write_target :: "icontext \<Rightarrow> mapContext" where
  "write_target NilContext = None"
| "write_target (MapContext m) = m"
| "write_target (MergedContext a b) = write_target b"

text \<open>A sequence of writes through one store, stopping at the first panic.\<close>

fun SetValue_all :: "heap \<Rightarrow> icontext \<Rightarrow> (string \<times> val) list \<Rightarrow> panic + heap" where
  "SetValue_all h c [] = Inr h"
| "SetValue_all h c (kv # kvs) =
     (case SetValue h c (fst kv) (snd kv) of
        Inl e \<Rightarrow> Inl e
      | Inr h' \<Rightarrow> SetValue_all h' c kvs)"

section \<open>Context.Update\<close>

text \<open>
  \<^verbatim>\<open>for k, v := range other { c[k] = v }\<close>, on the entries in the order the loop
  visits them; \<^verbatim>\<open>return c\<close> hands back the receiver's own map value.
\<close>

fun Context_Update_loop :: "heap \<Rightarrow> mapContext \<Rightarrow> (string \<times> val) list \<Rightarrow> panic + heap" where
  "Context_Update_loop h c [] = Inr h"
| "Context_Update_loop h c (kv # kvs) =
     (case mapContext_SetValue h c (fst kv) (snd kv) of
        Inl e \<Rightarrow> Inl e
      | Inr h' \<Rightarrow> Context_Update_loop h' c kvs)"

definition Context_Update ::
  "heap \<Rightarrow> mapContext \<Rightarrow> (string \<times> val) list \<Rightarrow> panic + (mapContext \<times> heap)" where
  "Context_Update h c kvs =
     (case Context_Update_loop h c kvs of Inl e \<Rightarrow> Inl e | Inr h' \<Rightarrow> Inr (c, h'))"

section \<open>The identifier pattern\<close>

text \<open>
  The pattern \<^verbatim>\<open>^[a-zA-Z0-9_]+$\<close> as a regular expression over bytes: character
  classes are lists of inclusive ranges, and \<^verbatim>\<open>x+\<close> is x followed by \<^verbatim>\<open>x*\<close>.
  The matcher takes the derivative of the expression by each byte of the text. The
  pattern is anchored at both ends (\<^verbatim>\<open>$\<close> without the multi-line flag is the end of
  the text), so \<^verbatim>\<open>MatchString\<close> holds when the whole text matches the body. A byte
  outside ASCII belongs to a rune outside every range of the class.
\<close>

datatype regex =
    NoMatch
  | EmptyMatch
  | CharClass "(char \<times> char) list"
  | Concat regex regex
  | Alternate regex regex
  | Star regex

definition in_range :: "char \<Rightarrow> char \<times> char \<Rightarrow> bool" where
  "in_range c r = ((of_char (fst r) :: nat) \<le> of_char c \<and> (of_char c :: nat) \<le> of_char (snd r))"

definition in_class :: "(char \<times> char) list \<Rightarrow> char \<Rightarrow> bool" where
  "in_class rs c = list_ex (in_range c) rs"

fun nullable :: "regex \<Rightarrow> bool" where
  "nullable NoMatch = False"
| "nullable EmptyMatch = True"
| "nullable (CharClass rs) = False"
| "nullable (Concat r s) = (nullable r \<and> nullable s)"
| "nullable (Alternate r s) = (nullable r \<or> nullable s)"
| "nullable (Star r) = True"

fun deriv :: "char \<Rightarrow> regex \<Rightarrow> regex" where
  "deriv c NoMatch = NoMatch"
| "deriv c EmptyMatch = NoMatch"
| "deriv c (CharClass rs) = (if in_class rs c then EmptyMatch else NoMatch)"
| "deriv c (Concat r s) =
     (if nullable r then Alternate (Concat (deriv c r) s) (deriv c s)
      else Concat (deriv c r) s)"
| "deriv c (Alternate r s) = Alternate (deriv c r) (deriv c s)"
| "deriv c (Star r) = Concat (deriv c r) (Star r)"

fun match_all :: "regex \<Rightarrow> string \<Rightarrow> bool" where
  "match_all r [] = nullable r"
| "match_all r (c # cs) = match_all (deriv c r) cs"

definition Plus :: "regex \<Rightarrow> regex" where
  "Plus r = Concat r (Star r)"

definition identifier_class :: "(char \<times> char) list" where
  "identifier_class =
     [(CHR ''a'', CHR ''z''), (CHR ''A'', CHR ''Z''), (CHR ''0'', CHR ''9''), (CHR ''_'', CHR ''_'')]"

definition reIdentifiers :: regex where
  "reIdentifiers = Plus (CharClass identifier_class)"

definition MatchString :: "regex \<Rightarrow> string \<Rightarrow> bool" where
  "MatchString re s = match_all re s"

text \<open>The language of an expression, to state what the matcher decides.\<close>

inductive_set star :: "string set \<Rightarrow> string set" for A :: "string set" where
  star_empty: "[] \<in> star A"
| star_app: "u \<in> A \<Longrightarrow> v \<in> star A \<Longrightarrow> u @ v \<in> star A"

fun lang :: "regex \<Rightarrow> string set" where
  "lang NoMatch = {}"
| "lang EmptyMatch = {[]}"
| "lang (CharClass rs) = {[c] | c. in_class rs c}"
| "lang (Concat r s) = {u @ v | u v. u \<in> lang r \<and> v \<in> lang s}"
| "lang (Alternate r s) = lang r \<union> lang s"
| "lang (Star r) = star (lang r)"

section \<open>Errors, templates and tokens\<close>

text \<open>
  Modelled from the spec: the declarations of \<^verbatim>\<open>Template\<close>, \<^verbatim>\<open>Token\<close> and
  \<^verbatim>\<open>Error\<close> are not part of this file. A template exposes its name, a token its
  source filename, line and column, and an error carries the seven fields this file
  assigns. Templates and tokens are reached through pointers, which may be nil.
\<close>

record Template =
  name :: string

record Token =
  Token_Filename :: string
  Token_Line :: int
  Token_Col :: int

text \<open>A value of the interface type \<^verbatim>\<open>error\<close>, built from its message.\<close>

datatype go_error = GoError string

definition errors_New :: "string \<Rightarrow> go_error" where
  "errors_New msg = GoError msg"

record Error =
  Template :: "addr option"
  Filename :: string
  Line :: int
  Column :: int
  Token :: "addr option"
  Sender :: string
  OrigError :: "go_error option"

text \<open>The zero value of the struct, as a composite literal leaves the fields it omits.\<close>

definition Error_zero :: Error where
  "Error_zero =
     \<lparr>Template = None, Filename = [], Line = 0, Column = 0, Token = None, Sender = [],
      OrigError = None\<rparr>"

text \<open>\<^verbatim>\<open>fmt.Errorf("context-key '%s' is not a valid identifier", v)\<close>\<close>

definition invalid_identifier_error :: "string \<Rightarrow> go_error" where
  "invalid_identifier_error v =
     GoError (''context-key '' @ [CHR 0x27] @ v @ [CHR 0x27] @ '' is not a valid identifier'')"

fun checkForValidIdentifiers :: "string list \<Rightarrow> Error option" where
  "checkForValidIdentifiers [] = None"
| "checkForValidIdentifiers (v # identifiers) =
     (if \<not> MatchString reIdentifiers v
      then Some (Error_zero\<lparr>Sender := ''checkForValidIdentifiers'',
                             OrigError := Some (invalid_identifier_error v)\<rparr>)
      else checkForValidIdentifiers identifiers)"

section \<open>The program state and ExecutionContext\<close>

text \<open>
  An \<^verbatim>\<open>ExecutionContext\<close> is a struct reached through a pointer; its exported fields
  can be assigned by any holder of the pointer. The three stores are interface values,
  the template is a pointer.
\<close>

record ExecutionContext =
  template :: "addr option"
  macroDepth :: int
  Autoescape :: bool
  Public :: icontext
  Private :: icontext
  Shared :: icontext

text \<open>
  The state of the program: the heap of map tables and of \<^verbatim>\<open>ExecutionContext\<close>
  structs, each with its next free address, the templates and tokens that pointers
  refer to, and the two package-level variables.
\<close>

record state =
  map_heap :: heap
  next_map :: addr
  ectx_heap :: "addr \<Rightarrow> ExecutionContext"
  next_ectx :: addr
  templates :: "addr \<Rightarrow> Template"
  tokens :: "addr \<Rightarrow> Token"
  autoescape :: bool
  pongo2MetaContext :: mapContext

definition ExecutionContext_zero :: ExecutionContext where
  "ExecutionContext_zero =
     \<lparr>template = None, macroDepth = 0, Autoescape = False, Public = NilContext,
      Private = NilContext, Shared = NilContext\<rparr>"

text \<open>
  Package initialisation: \<^verbatim>\<open>autoescape = true\<close> and the metadata map literal
  \<^verbatim>\<open>{"version": Version}\<close>. The constant \<^verbatim>\<open>Version\<close> is declared outside this
  file and is a parameter here; so are the templates and tokens.
\<close>

definition package_init :: "string \<Rightarrow> (addr \<Rightarrow> Template) \<Rightarrow> (addr \<Rightarrow> Token) \<Rightarrow> state" where
  "package_init Version tpls toks =
     \<lparr>map_heap = (\<lambda>_. fmempty)(0 := fmupd ''version'' (VString Version) fmempty),
      next_map = 1,
      ectx_heap = (\<lambda>_. ExecutionContext_zero),
      next_ectx = 0,
      templates = tpls,
      tokens = toks,
      autoescape = True,
      pongo2MetaContext = Some 0\<rparr>"

definition SetAutoescape :: "state \<Rightarrow> bool \<Rightarrow> state" where
  "SetAutoescape s newValue = s\<lparr>autoescape := newValue\<rparr>"

text \<open>A map literal: the table is stored at the next free address.\<close>

definition new_map :: "state \<Rightarrow> gomap \<Rightarrow> mapContext \<times> state" where
  "new_map s m =
     (Some (next_map s),
      s\<lparr>map_heap := (map_heap s)(next_map s := m), next_map := Suc (next_map s)\<rparr>)"

text \<open>\<^verbatim>\<open>&ExecutionContext{...}\<close>: the struct is stored at the next free address.\<close>

definition new_ectx :: "state \<Rightarrow> ExecutionContext \<Rightarrow> addr \<times> state" where
  "new_ectx s e =
     (next_ectx s,
      s\<lparr>ectx_heap := (ectx_heap s)(next_ectx s := e), next_ectx := Suc (next_ectx s)\<rparr>)"

definition newExecutionContext :: "state \<Rightarrow> addr option \<Rightarrow> icontext \<Rightarrow> addr \<times> state" where
  "newExecutionContext s tpl ctx =
     (let (privateCtx, s1) =
            new_map s (fmupd ''pongo2'' (VMap (pongo2MetaContext s)) fmempty);
          (overlay, s2) = new_map s1 fmempty
      in new_ectx s2
           (ExecutionContext_zero\<lparr>template := tpl,
              Public := mergeContexts ctx (MapContext overlay),
              Private := MapContext privateCtx,
              Autoescape := autoescape s2\<rparr>))"

definition NewChildExecutionContext :: "state \<Rightarrow> addr option \<Rightarrow> panic + (addr \<times> state)" where
  "NewChildExecutionContext s parent =
     (case parent of
        None \<Rightarrow> Inl NilPointerDereference
      | Some pp \<Rightarrow>
          (let par = ectx_heap s pp;
               (overlay, s1) = new_map s fmempty;
               (newctx, s2) =
                 new_ectx s1
                   (ExecutionContext_zero\<lparr>template := template par,
                      Public := Public par,
                      Private := mergeContexts (Private par) (MapContext overlay),
                      Autoescape := Autoescape par\<rparr>)
           in Inr (newctx,
                   s2\<lparr>ectx_heap := (ectx_heap s2)
                        (newctx := (ectx_heap s2 newctx)\<lparr>Shared := Shared (ectx_heap s2 pp)\<rparr>)\<rparr>)))"

text \<open>The assignment \<^verbatim>\<open>p.Autoescape = v\<close> to the exported field, by a holder of p.\<close>

definition assign_Autoescape :: "state \<Rightarrow> addr \<Rightarrow> bool \<Rightarrow> state" where
  "assign_Autoescape s p v =
     s\<lparr>ectx_heap := (ectx_heap s)(p := (ectx_heap s p)\<lparr>Autoescape := v\<rparr>)\<rparr>"

text \<open>The assignment \<^verbatim>\<open>p.Shared = c\<close> to the exported field, by a holder of p.\<close>

definition assign_Shared :: "state \<Rightarrow> addr \<Rightarrow> icontext \<Rightarrow> state" where
  "assign_Shared s p c =
     s\<lparr>ectx_heap := (ectx_heap s)(p := (ectx_heap s p)\<lparr>Shared := c\<rparr>)\<rparr>"

definition ExecutionContext_OrigError ::
  "state \<Rightarrow> addr option \<Rightarrow> go_error option \<Rightarrow> addr option \<Rightarrow> panic + Error" where
  "ExecutionContext_OrigError s ctx err token =
     (case ctx of
        None \<Rightarrow> Inl NilPointerDereference
      | Some cp \<Rightarrow>
          (case template (ectx_heap s cp) of
             None \<Rightarrow> Inl NilPointerDereference
           | Some tp \<Rightarrow>
               (let filename = name (templates s tp);
                    line = 0;
                    col = 0;
                    (filename, line, col) =
                      (case token of
                         None \<Rightarrow> (filename, line, col)
                       | Some tk \<Rightarrow>
                           (Token_Filename (tokens s tk), Token_Line (tokens s tk),
                            Token_Col (tokens s tk)))
                in Inr \<lparr>Template = template (ectx_heap s cp),
                         Filename = filename,
                         Line = line,
                         Column = col,
                         Token = token,
                         Sender = ''execution'',
                         OrigError = err\<rparr>)))"

definition ExecutionContext_Error ::
  "state \<Rightarrow> addr option \<Rightarrow> string \<Rightarrow> addr option \<Rightarrow> panic + Error" where
  "ExecutionContext_Error s ctx msg token =
     ExecutionContext_OrigError s ctx (Some (errors_New msg)) token"

text \<open>
  What a program can do to a state while rendering: write through any store, update a
  \<^verbatim>\<open>Context\<close>, make a map, call \<^verbatim>\<open>SetAutoescape\<close>, assign the
  \<^verbatim>\<open>Autoescape\<close> field of any scope, build a root scope and derive a child from any
  scope. Calls that panic make no step.
\<close>

inductive render_step :: "state \<Rightarrow> state \<Rightarrow> bool" where
  render_step_SetValue:
    "SetValue (map_heap s) c key v = Inr h \<Longrightarrow> render_step s (s\<lparr>map_heap := h\<rparr>)"
| render_step_Update:
    "Context_Update (map_heap s) m kvs = Inr (m', h) \<Longrightarrow> render_step s (s\<lparr>map_heap := h\<rparr>)"
| render_step_new_map:
    "new_map s m = (p, s') \<Longrightarrow> render_step s s'"
| render_step_SetAutoescape:
    "render_step s (SetAutoescape s newValue)"
| render_step_assign_Autoescape:
    "render_step s (assign_Autoescape s p v)"
| render_step_root:
    "newExecutionContext s tpl ctx = (r, s') \<Longrightarrow> render_step s s'"
| render_step_child:
    "NewChildExecutionContext s parent = Inr (c, s') \<Longrightarrow> render_step s s'"

text \<open>
  A step of the whole program: a render step, or the assignment of the Shared field of
  any scope (the engine gives a root its Shared store after building it).
\<close>

inductive program_step :: "state \<Rightarrow> state \<Rightarrow> bool" where
  program_step_render: "render_step s s' \<Longrightarrow> program_step s s'"
| program_step_assign_Shared: "program_step s (assign_Shared s p c)"

text \<open>
  A render tree: a root scope, set up in state \<open>s0\<close>, and the scopes derived from it
  by \<^verbatim>\<open>NewChildExecutionContext\<close> while the program runs.
  \<open>render_tree root s0 s ps\<close> holds when the program has come from \<open>s0\<close> to
  \<open>s\<close> and \<open>ps\<close> are scopes of the tree by then. In between the program may
  take any render step, also on the scopes and stores of the tree, and may assign the
  Shared field of scopes outside the tree; the Public, Shared and template fields of the
  scopes of the tree are not assigned.
\<close>

inductive render_tree :: "addr \<Rightarrow> state \<Rightarrow> state \<Rightarrow> addr list \<Rightarrow> bool"
  for root :: addr and s0 :: state
where
  render_tree_root: "render_tree root s0 s0 [root]"
| render_tree_child:
    "render_tree root s0 s ps \<Longrightarrow> parent \<in> set ps \<Longrightarrow>
     NewChildExecutionContext s (Some parent) = Inr (child, s') \<Longrightarrow>
     render_tree root s0 s' (child # ps)"
| render_tree_step:
    "render_tree root s0 s ps \<Longrightarrow> render_step s s' \<Longrightarrow> render_tree root s0 s' ps"
| render_tree_other_Shared:
    "render_tree root s0 s ps \<Longrightarrow> p \<notin> set ps \<Longrightarrow>
     render_tree root s0 (assign_Shared s p c) ps"

text \<open>
  A store is allocated in a state when every map it refers to lies below the next free
  address of the heap of maps.
\<close>

definition allocated :: "state \<Rightarrow> icontext \<Rightarrow> bool" where
  "allocated s c = (\<forall>p \<in> maps_of c. p < next_map s)"

section \<open>Example data\<close>

text \<open>A base store holding a = 1 and an overlay holding a = 2 and b = 3.\<close>

definition example_heap :: heap where
  "example_heap =
     (\<lambda>_. fmempty)
       (0 := fmupd ''a'' (VInt 1) fmempty,
        1 := fmupd ''b'' (VInt 3) (fmupd ''a'' (VInt 2) fmempty))"

definition example_view :: icontext where
  "example_view = mergeContexts (MapContext (Some 0)) (MapContext (Some 1))"

text \<open>A view whose overlay is the very map that is its base.\<close>

definition aliased_view :: icontext where
  "aliased_view = mergeContexts (MapContext (Some 0)) (MapContext (Some 0))"

definition aliased_heap_after :: heap where
  "aliased_heap_after = example_heap(0 := fmupd ''a'' (VInt 9) (example_heap 0))"

definition example_heap_after :: heap where
  "example_heap_after = example_heap(1 := fmupd ''a'' (VInt 9) (example_heap 1))"

text \<open>
  A program state after package initialisation in which the user has built a store
  holding a = 1 (at address 1), and a root scope made for that store.
\<close>

definition example_state :: state where
  "example_state =
     snd (new_map
       (package_init ''dev'' (\<lambda>_. \<lparr>name = ''index.html''\<rparr>)
          (\<lambda>_. \<lparr>Token_Filename = ''base.html'', Token_Line = 3, Token_Col = 7\<rparr>))
       (fmupd ''a'' (VInt 1) fmempty))"

definition example_user_store :: icontext where
  "example_user_store = MapContext (Some 1)"

definition example_root :: "addr \<times> state" where
  "example_root = newExecutionContext example_state (Some 0) example_user_store"

definition example_root_heap_after :: heap where
  "example_root_heap_after =
     (map_heap (snd example_root))(3 := fmupd ''a'' (VInt 9) fmempty)"

text \<open>A child scope derived from the example root.\<close>

definition example_child :: "addr \<times> state" where
  "example_child =
     projr (NewChildExecutionContext (snd example_root) (Some (fst example_root)))"

text \<open>
  The example root after the engine has given it a fresh map as Shared store, a child
  derived from it, and the heaps after a write through the child's Shared and Public.
\<close>

definition example_shared_root :: "addr \<times> state" where
  "example_shared_root =
     (let (m, s) = new_map (snd example_root) fmempty
      in (fst example_root, assign_Shared s (fst example_root) (MapContext m)))"

definition example_shared_child :: "addr \<times> state" where
  "example_shared_child =
     projr (NewChildExecutionContext (snd example_shared_root) (Some (fst example_shared_root)))"

definition example_shared_write :: heap where
  "example_shared_write =
     projr (SetValue (map_heap (snd example_shared_child))
       (Shared (ectx_heap (snd example_shared_child) (fst example_shared_child)))
       ''counter'' (VInt 5))"

definition example_public_write :: heap where
  "example_public_write =
     projr (SetValue (map_heap (snd example_shared_child))
       (Public (ectx_heap (snd example_shared_child) (fst example_shared_child)))
       ''counter'' (VInt 5))"

text \<open>
  The program goes on after the example root is built: the metadata map is written
  through the binding, and a second root scope is built for another template.
\<close>

definition example_patched_state :: state where
  "example_patched_state =
     (snd example_root)\<lparr>map_heap :=
        projr (SetValue (map_heap (snd example_root)) (MapContext (Some 0))
                 ''version'' (VString ''patched''))\<rparr>"

definition example_late_root :: "addr \<times> state" where
  "example_late_root = newExecutionContext example_patched_state (Some 1) example_user_store"

section \<open>Well-formed identifiers, as the specification words them\<close>

text \<open>
  A name is a well-formed identifier when it is non-empty and made of letters, digits and
  the underscore only.
\<close>

definition identifier_chars :: string where
  "identifier_chars =
     ''abcdefghijklmnopqrstuvwxyz'' @ ''ABCDEFGHIJKLMNOPQRSTUVWXYZ'' @ ''0123456789'' @ ''_''"

definition valid_identifier :: "string \<Rightarrow> bool" where
  "valid_identifier v = (v \<noteq> [] \<and> list_all (\<lambda>c. c \<in> set identifier_chars) v)"

text \<open>
  The validation error for the name v: the fixed sender tag of the validation stage, and
  a message that quotes the name.
\<close>

definition validation_error :: "string \<Rightarrow> Error" where
  "validation_error v =
     \<lparr>Template = None, Filename = [], Line = 0, Column = 0, Token = None,
      Sender = ''checkForValidIdentifiers'',
      OrigError =
        Some (GoError (''context-key '' @ [CHR 0x27] @ v @ [CHR 0x27] @
                       '' is not a valid identifier''))\<rparr>"

text \<open>A base store holding x and an overlay holding x and y.\<close>

definition example_ids_heap :: heap where
  "example_ids_heap =
     (\<lambda>_. fmempty)
       (0 := fmupd ''x'' (VInt 1) fmempty,
        1 := fmupd ''y'' (VInt 3) (fmupd ''x'' (VInt 2) fmempty))"

text \<open>A second child of the example root, derived after the first.\<close>

definition example_sibling :: "addr \<times> state" where
  "example_sibling =
     projr (NewChildExecutionContext (snd example_child) (Some (fst example_root)))"

text \<open>
  The render goes on: the write through the child's Shared store is made, the child's
  Autoescape flag is cleared, and a grandchild is derived from the child; then a write
  is made through the grandchild's Public store.
\<close>

definition example_written_state :: state where
  "example_written_state =
     assign_Autoescape ((snd example_shared_child)\<lparr>map_heap := example_shared_write\<rparr>)
       (fst example_shared_child) False"

definition example_late_child :: "addr \<times> state" where
  "example_late_child =
     projr (NewChildExecutionContext example_written_state (Some (fst example_shared_child)))"

definition example_late_write :: heap where
  "example_late_write =
     projr (SetValue (map_heap (snd example_late_child))
       (Public (ectx_heap (snd example_late_child) (fst example_late_child)))
       ''counter'' (VInt 6))"

section \<open>Reading through a merged store\<close>

text \<open>
  C1. A merged store over base \<open>a\<close> and overlay \<open>b\<close> answers \<^verbatim>\<open>GetValue\<close> with the
  overlay's value and true when the overlay has the name; otherwise with exactly what the
  base answers; when neither has the name the found flag is false. The last two lines
  say the same for an overlay that is a map, in terms of its table.
\<close>

theorem mergedContext_GetValue_overlay_first:
  "(GetValue h b n = Inr (v, True) \<longrightarrow> GetValue h (mergeContexts a b) n = Inr (v, True)) \<and>
   (GetValue h b n = Inr (v, False) \<longrightarrow> GetValue h (mergeContexts a b) n = GetValue h a n) \<and>
   (GetValue h b n = Inr (v, False) \<and> GetValue h a n = Inr (w, False) \<longrightarrow>
      GetValue h (mergeContexts a b) n = Inr (w, False)) \<and>
   (fmlookup (h q) n = Some v \<longrightarrow>
      GetValue h (mergeContexts a (MapContext (Some q))) n = Inr (v, True)) \<and>
   (fmlookup (h q) n = None \<longrightarrow>
      GetValue h (mergeContexts a (MapContext (Some q))) n = GetValue h a n)"
  by (simp add: mergeContexts_def mapContext_GetValue_def)

theorem mergedContext_GetValue_overlay_first_witness:
  "GetValue example_heap example_view ''a'' = Inr (VInt 2, True) \<and>
   GetValue example_heap example_view ''b'' = Inr (VInt 3, True) \<and>
   GetValue example_heap example_view ''c'' = Inr (VNil, False)"
  using
    mergedContext_GetValue_overlay_first
      [of example_heap "MapContext (Some 1)" "''a''" "VInt 2" "MapContext (Some 0)" VNil 1]
    mergedContext_GetValue_overlay_first
      [of example_heap "MapContext (Some 1)" "''b''" "VInt 3" "MapContext (Some 0)" VNil 1]
    mergedContext_GetValue_overlay_first
      [of example_heap "MapContext (Some 1)" "''c''" "VNil" "MapContext (Some 0)" VNil 1]
  by (simp add: example_heap_def example_view_def mapContext_GetValue_def)

section \<open>Writing through a merged store\<close>

lemma SetValue_Inr:
  "SetValue h c k v = Inr h' \<Longrightarrow> \<exists>p. write_target c = Some p \<and> h' = h(p := fmupd k v (h p))"
  by (induction c) (auto simp: mapContext_SetValue_def split: option.splits)

lemma write_target_maps_of: "write_target c = Some p \<Longrightarrow> p \<in> maps_of c"
  by (induction c) auto

lemma GetValue_heap_cong:
  "(\<And>p. p \<in> maps_of c \<Longrightarrow> h' p = h p) \<Longrightarrow> GetValue h' c n = GetValue h c n"
proof (induction c)
  case NilContext
  show ?case by simp
next
  case (MapContext m)
  then show ?case by (cases m) (simp_all add: mapContext_GetValue_def)
next
  case (MergedContext a b)
  then show ?case by (simp split: sum.splits)
qed

lemma SetValue_all_frame:
  "SetValue_all h c kvs = Inr h' \<Longrightarrow> Some q \<noteq> write_target c \<Longrightarrow> h' q = h q"
proof (induction kvs arbitrary: h)
  case Nil
  then show ?case by simp
next
  case (Cons kv kvs)
  from Cons.prems(1) obtain h1 where
    w: "SetValue h c (fst kv) (snd kv) = Inr h1" and r: "SetValue_all h1 c kvs = Inr h'"
    by (auto split: sum.splits)
  from SetValue_Inr [OF w] Cons.prems(2) have "h1 q = h q" by auto
  with Cons.IH [OF r Cons.prems(2)] show ?case by simp
qed

lemma newExecutionContext_Public:
  "newExecutionContext s tpl ctx = (r, s1) \<Longrightarrow>
   Public (ectx_heap s1 r) = mergeContexts ctx (MapContext (Some (Suc (next_map s)))) \<and>
   (\<forall>p. p < next_map s \<longrightarrow> map_heap s1 p = map_heap s p)"
  by (auto simp: newExecutionContext_def new_map_def new_ectx_def Let_def)

text \<open>
  C2 (amended). \<^verbatim>\<open>SetValue\<close> through a merged store writes the one map its overlay
  writes to and no other. When that map is not among the maps the base reads (as for every
  view this file builds, whose overlay is a fresh map), the base answers \<^verbatim>\<open>GetValue\<close>
  for every key as before, also when base or overlay are merged stores themselves. After
  root construction, no sequence of writes through the Public view changes any
  \<^verbatim>\<open>GetValue\<close> answer of the user's store.
\<close>

theorem mergedContext_SetValue_base_unchanged:
  "(SetValue h (mergeContexts a b) k v = Inr h' \<and> write_target b \<notin> Some ` maps_of a \<longrightarrow>
      (\<exists>p. write_target b = Some p \<and> p \<in> maps_of b \<and> h' = h(p := fmupd k v (h p))) \<and>
      (\<forall>n. GetValue h' a n = GetValue h a n)) \<and>
   (allocated s ctx \<and> newExecutionContext s tpl ctx = (r, s1) \<and>
    SetValue_all (map_heap s1) (Public (ectx_heap s1 r)) kvs = Inr h2 \<longrightarrow>
      (\<forall>n. GetValue h2 ctx n = GetValue (map_heap s) ctx n))"
proof (intro conjI impI)
  assume A: "SetValue h (mergeContexts a b) k v = Inr h' \<and> write_target b \<notin> Some ` maps_of a"
  then have "SetValue h b k v = Inr h'" by (simp add: mergeContexts_def)
  from SetValue_Inr [OF this] obtain p where
    p: "write_target b = Some p" "h' = h(p := fmupd k v (h p))" by blast
  show "\<exists>p. write_target b = Some p \<and> p \<in> maps_of b \<and> h' = h(p := fmupd k v (h p))"
    using p write_target_maps_of by blast
  from A p have "p \<notin> maps_of a" by auto
  then show "\<forall>n. GetValue h' a n = GetValue h a n"
    using p(2) by (auto intro!: GetValue_heap_cong)
next
  assume B: "allocated s ctx \<and> newExecutionContext s tpl ctx = (r, s1) \<and>
    SetValue_all (map_heap s1) (Public (ectx_heap s1 r)) kvs = Inr h2"
  note P = newExecutionContext_Public [of s tpl ctx r s1]
  have "h2 p = map_heap s p" if "p \<in> maps_of ctx" for p
  proof -
    from that B have lt: "p < next_map s" by (auto simp: allocated_def)
    then have "Some p \<noteq> write_target (Public (ectx_heap s1 r))"
      using P B by (auto simp: mergeContexts_def)
    with B have "h2 p = map_heap s1 p" by (auto dest: SetValue_all_frame)
    with lt P B show ?thesis by auto
  qed
  then show "\<forall>n. GetValue h2 ctx n = GetValue (map_heap s) ctx n"
    by (auto intro!: GetValue_heap_cong)
qed

text \<open>
  Without that separation the base does change: when the overlay is the very map the
  base reads, the write through the view changes what the base answers for the written
  key.
\<close>

theorem mergedContext_SetValue_aliased_base_changes:
  "SetValue example_heap aliased_view ''a'' (VInt 9) = Inr aliased_heap_after \<and>
   GetValue example_heap (MapContext (Some 0)) ''a'' = Inr (VInt 1, True) \<and>
   GetValue aliased_heap_after (MapContext (Some 0)) ''a'' = Inr (VInt 9, True)"
  by (simp add: aliased_view_def aliased_heap_after_def example_heap_def mergeContexts_def
      mapContext_SetValue_def mapContext_GetValue_def)


lemma example_root_eq:
  "example_root =
     (0, example_state\<lparr>
        map_heap := (map_heap example_state)
          (2 := fmupd ''pongo2'' (VMap (Some 0)) fmempty, 3 := fmempty),
        next_map := 4,
        ectx_heap := (ectx_heap example_state)
          (0 := ExecutionContext_zero\<lparr>template := Some 0,
                  Public := mergeContexts example_user_store (MapContext (Some 3)),
                  Private := MapContext (Some 2),
                  Autoescape := True\<rparr>),
        next_ectx := 1\<rparr>)"
  by (simp add: example_root_def newExecutionContext_def new_map_def new_ectx_def
      example_state_def package_init_def numeral_eq_Suc)

theorem mergedContext_SetValue_base_unchanged_witness:
  "SetValue example_heap example_view ''a'' (VInt 9) = Inr example_heap_after \<and>
   write_target (MapContext (Some 1)) \<notin> Some ` maps_of (MapContext (Some 0)) \<and>
   GetValue example_heap_after (MapContext (Some 0)) ''a'' = Inr (VInt 1, True) \<and>
   allocated example_state example_user_store \<and>
   SetValue_all (map_heap (snd example_root))
     (Public (ectx_heap (snd example_root) (fst example_root))) [(''a'', VInt 9)] =
     Inr example_root_heap_after \<and>
   GetValue example_root_heap_after example_user_store ''a'' = Inr (VInt 1, True)"
proof -
  have 1: "SetValue example_heap (mergeContexts (MapContext (Some 0)) (MapContext (Some 1)))
      ''a'' (VInt 9) = Inr example_heap_after"
    by (simp add: mergeContexts_def mapContext_SetValue_def example_heap_after_def)
  have 2: "write_target (MapContext (Some 1)) \<notin> Some ` maps_of (MapContext (Some 0))"
    by simp
  have 3: "GetValue example_heap (MapContext (Some 0)) ''a'' = Inr (VInt 1, True)"
    by (simp add: example_heap_def mapContext_GetValue_def)
  have 4: "allocated example_state example_user_store"
    by (simp add: allocated_def example_user_store_def example_state_def new_map_def
        package_init_def)
  have 5: "SetValue_all (map_heap (snd example_root))
     (Public (ectx_heap (snd example_root) (fst example_root))) [(''a'', VInt 9)] =
     Inr example_root_heap_after"
    by (simp add: example_root_eq example_root_heap_after_def mergeContexts_def
        mapContext_SetValue_def)
  have 6: "GetValue (map_heap example_state) example_user_store ''a'' = Inr (VInt 1, True)"
    by (simp add: example_user_store_def example_state_def new_map_def package_init_def
        mapContext_GetValue_def)
  have 7: "newExecutionContext example_state (Some 0) example_user_store =
      (fst example_root, snd example_root)"
    by (simp add: example_root_def)
  from mergedContext_SetValue_base_unchanged [of example_heap "MapContext (Some 0)" "MapContext (Some 1)" "''a''" "VInt 9"
      example_heap_after example_state example_user_store "Some 0" "fst example_root"
      "snd example_root" "[(''a'', VInt 9)]" example_root_heap_after] 1 2 3 4 5 6 7
  show ?thesis by (simp add: example_view_def)
qed

section \<open>Deriving a child scope\<close>

lemma NewChildExecutionContext_fields:
  assumes "NewChildExecutionContext s (Some pp) = Inr (c, s1)"
  shows "c = next_ectx s" and "next_ectx s1 = Suc (next_ectx s)"
    and "next_map s1 = Suc (next_map s)"
    and "map_heap s1 = (map_heap s)(next_map s := fmempty)"
    and "\<And>q. q \<noteq> c \<Longrightarrow> ectx_heap s1 q = ectx_heap s q"
    and "template (ectx_heap s1 c) = template (ectx_heap s pp)"
    and "Public (ectx_heap s1 c) = Public (ectx_heap s pp)"
    and "Private (ectx_heap s1 c) =
           mergeContexts (Private (ectx_heap s pp)) (MapContext (Some (next_map s)))"
    and "Autoescape (ectx_heap s1 c) = Autoescape (ectx_heap s pp)"
    and "macroDepth (ectx_heap s1 c) = 0"
    and "pp \<noteq> c \<Longrightarrow> Shared (ectx_heap s1 c) = Shared (ectx_heap s pp)"
    and "autoescape s1 = autoescape s" and "pongo2MetaContext s1 = pongo2MetaContext s"
    and "templates s1 = templates s" and "tokens s1 = tokens s"
  using assms
  by (auto simp: NewChildExecutionContext_def new_map_def new_ectx_def Let_def
      ExecutionContext_zero_def)




lemma example_child_eq:
  "NewChildExecutionContext (snd example_root) (Some (fst example_root)) = Inr example_child"
  by (simp add: example_child_def NewChildExecutionContext_def Let_def new_map_def new_ectx_def
      split: prod.splits)

lemma example_root_Private:
  "Private (ectx_heap (snd example_root) (fst example_root)) = MapContext (Some 2)"
  by (simp add: example_root_eq ExecutionContext_zero_def)


lemma SetValue_GetValue:
  "SetValue h c k v = Inr h' \<Longrightarrow> GetValue h' c k = Inr (v, True)"
  by (induction c)
    (auto simp: mapContext_SetValue_def mapContext_GetValue_def split: option.splits)


lemma newExecutionContext_fields:
  assumes "newExecutionContext s tpl ctx = (r, s1)"
  shows "r = next_ectx s" and "next_ectx s1 = Suc (next_ectx s)"
    and "next_map s1 = Suc (Suc (next_map s))"
    and "map_heap s1 = (map_heap s)
           (next_map s := fmupd ''pongo2'' (VMap (pongo2MetaContext s)) fmempty,
            Suc (next_map s) := fmempty)"
    and "\<And>q. q \<noteq> r \<Longrightarrow> ectx_heap s1 q = ectx_heap s q"
    and "template (ectx_heap s1 r) = tpl"
    and "Public (ectx_heap s1 r) = mergeContexts ctx (MapContext (Some (Suc (next_map s))))"
    and "Private (ectx_heap s1 r) = MapContext (Some (next_map s))"
    and "Autoescape (ectx_heap s1 r) = autoescape s"
    and "macroDepth (ectx_heap s1 r) = 0"
    and "Shared (ectx_heap s1 r) = NilContext"
    and "autoescape s1 = autoescape s" and "pongo2MetaContext s1 = pongo2MetaContext s"
    and "templates s1 = templates s" and "tokens s1 = tokens s"
  using assms
  by (auto simp: newExecutionContext_def new_map_def new_ectx_def Let_def
      ExecutionContext_zero_def)


lemma example_shared_root_eq:
  "fst example_shared_root = 0"
  "next_ectx (snd example_shared_root) = 1"
  "ectx_heap (snd example_shared_root) 0 =
     ExecutionContext_zero\<lparr>template := Some 0,
       Public := mergeContexts example_user_store (MapContext (Some 3)),
       Private := MapContext (Some 2),
       Autoescape := True,
       Shared := MapContext (Some 4)\<rparr>"
  by (simp_all add: example_shared_root_def example_root_eq new_map_def assign_Shared_def)

lemma example_shared_child_eq:
  "NewChildExecutionContext (snd example_shared_root) (Some (fst example_shared_root)) =
     Inr example_shared_child"
  by (simp add: example_shared_child_def NewChildExecutionContext_def Let_def new_map_def
      new_ectx_def split: prod.splits)

lemma example_shared_child_fields:
  "Shared (ectx_heap (snd example_shared_child) (fst example_shared_child)) =
     MapContext (Some 4)"
  "Public (ectx_heap (snd example_shared_child) (fst example_shared_child)) =
     mergeContexts example_user_store (MapContext (Some 3))"
proof -
  have E: "NewChildExecutionContext (snd example_shared_root) (Some 0) =
      Inr (fst example_shared_child, snd example_shared_child)"
    using example_shared_child_eq by (simp add: example_shared_root_eq)
  note F = NewChildExecutionContext_fields [OF E]
  have c: "0 \<noteq> fst example_shared_child"
    using F(1) by (simp add: example_shared_root_eq)
  show "Shared (ectx_heap (snd example_shared_child) (fst example_shared_child)) =
      MapContext (Some 4)"
    using F(11) [OF c] by (simp add: example_shared_root_eq)
  show "Public (ectx_heap (snd example_shared_child) (fst example_shared_child)) =
     mergeContexts example_user_store (MapContext (Some 3))"
    using F(7) by (simp add: example_shared_root_eq)
qed

lemma render_step_scopes:
  assumes "render_step s s'"
  shows "next_ectx s \<le> next_ectx s' \<and>
         (\<forall>p. p < next_ectx s \<longrightarrow>
            Public (ectx_heap s' p) = Public (ectx_heap s p) \<and>
            Shared (ectx_heap s' p) = Shared (ectx_heap s p) \<and>
            template (ectx_heap s' p) = template (ectx_heap s p))"
  using assms
proof (cases rule: render_step.cases)
  case (render_step_root tpl ctx r)
  note F = newExecutionContext_fields [OF render_step_root]
  from F(1,2) F(5) show ?thesis by auto
next
  case (render_step_child parent c)
  then obtain pp where pp: "parent = Some pp"
    by (cases parent) (simp_all add: NewChildExecutionContext_def)
  note F = NewChildExecutionContext_fields [OF render_step_child [unfolded pp]]
  from F(1,2) F(5) show ?thesis by auto
qed (auto simp: new_map_def SetAutoescape_def assign_Autoescape_def)

lemma render_step_globals:
  assumes "render_step s s'"
  shows "pongo2MetaContext s' = pongo2MetaContext s \<and> next_map s \<le> next_map s'"
  using assms
proof (cases rule: render_step.cases)
  case (render_step_root tpl ctx r)
  note F = newExecutionContext_fields [OF render_step_root]
  from F(3,13) show ?thesis by simp
next
  case (render_step_child parent c)
  then obtain pp where pp: "parent = Some pp"
    by (cases parent) (simp_all add: NewChildExecutionContext_def)
  note F = NewChildExecutionContext_fields [OF render_step_child [unfolded pp]]
  from F(3,13) show ?thesis by simp
qed (auto simp: new_map_def SetAutoescape_def assign_Autoescape_def)

lemma render_tree_invariant:
  assumes "render_tree root s0 s ps" and "root < next_ectx s0"
  shows "\<forall>p \<in> set ps. p < next_ectx s \<and>
           Public (ectx_heap s p) = Public (ectx_heap s0 root) \<and>
           Shared (ectx_heap s p) = Shared (ectx_heap s0 root) \<and>
           template (ectx_heap s p) = template (ectx_heap s0 root)"
  using assms
proof (induction rule: render_tree.induct)
  case render_tree_root
  then show ?case by simp
next
  case (render_tree_child s ps parent child s')
  note F = NewChildExecutionContext_fields [OF render_tree_child.hyps(3)]
  from render_tree_child have inv: "\<forall>p \<in> set ps. p < next_ectx s \<and>
           Public (ectx_heap s p) = Public (ectx_heap s0 root) \<and>
           Shared (ectx_heap s p) = Shared (ectx_heap s0 root) \<and>
           template (ectx_heap s p) = template (ectx_heap s0 root)" by blast
  with render_tree_child.hyps(2) have par: "parent < next_ectx s" by blast
  with F(1) have ne: "parent \<noteq> child" by simp
  have old: "ectx_heap s' p = ectx_heap s p" if "p \<in> set ps" for p
    using that inv F(1) by (intro F(5)) auto
  have "child < next_ectx s'" using F(1,2) by simp
  moreover have "Public (ectx_heap s' child) = Public (ectx_heap s0 root)"
    "Shared (ectx_heap s' child) = Shared (ectx_heap s0 root)"
    "template (ectx_heap s' child) = template (ectx_heap s0 root)"
    using F(6,7) F(11) [OF ne] inv render_tree_child.hyps(2) by auto
  moreover have "\<forall>p \<in> set ps. p < next_ectx s' \<and>
           Public (ectx_heap s' p) = Public (ectx_heap s0 root) \<and>
           Shared (ectx_heap s' p) = Shared (ectx_heap s0 root) \<and>
           template (ectx_heap s' p) = template (ectx_heap s0 root)"
    using inv old F(2) by auto
  ultimately show ?case by simp
next
  case (render_tree_step s ps s')
  from render_tree_step have inv: "\<forall>p \<in> set ps. p < next_ectx s \<and>
           Public (ectx_heap s p) = Public (ectx_heap s0 root) \<and>
           Shared (ectx_heap s p) = Shared (ectx_heap s0 root) \<and>
           template (ectx_heap s p) = template (ectx_heap s0 root)" by blast
  note R = render_step_scopes [OF render_tree_step.hyps(2)]
  show ?case
  proof
    fix p assume "p \<in> set ps"
    with inv have p: "p < next_ectx s"
      "Public (ectx_heap s p) = Public (ectx_heap s0 root)"
      "Shared (ectx_heap s p) = Shared (ectx_heap s0 root)"
      "template (ectx_heap s p) = template (ectx_heap s0 root)" by blast+
    from R p(1) have "p < next_ectx s'"
      "Public (ectx_heap s' p) = Public (ectx_heap s p)"
      "Shared (ectx_heap s' p) = Shared (ectx_heap s p)"
      "template (ectx_heap s' p) = template (ectx_heap s p)" by auto
    with p show "p < next_ectx s' \<and>
           Public (ectx_heap s' p) = Public (ectx_heap s0 root) \<and>
           Shared (ectx_heap s' p) = Shared (ectx_heap s0 root) \<and>
           template (ectx_heap s' p) = template (ectx_heap s0 root)" by simp
  qed
next
  case (render_tree_other_Shared s ps p c)
  then have inv: "\<forall>q \<in> set ps. q < next_ectx s \<and>
           Public (ectx_heap s q) = Public (ectx_heap s0 root) \<and>
           Shared (ectx_heap s q) = Shared (ectx_heap s0 root) \<and>
           template (ectx_heap s q) = template (ectx_heap s0 root)" by blast
  have "ectx_heap (assign_Shared s p c) q = ectx_heap s q" if "q \<in> set ps" for q
    using that render_tree_other_Shared.hyps(2) by (auto simp: assign_Shared_def)
  moreover have "next_ectx (assign_Shared s p c) = next_ectx s"
    by (simp add: assign_Shared_def)
  ultimately show ?case using inv by simp
qed


text \<open>
  C4. A child derived from an allocated parent scope holds in Public, Shared and template
  the very values the parent holds, and its macroDepth is zero whatever the parent's is;
  the parent is left as it was. A write that returns through the child's Public or Shared
  is read back through the parent's. In a render tree, whatever render steps the program
  has taken since the root was set up (writes through any store, flag assignments, further
  roots and derivations), any two scopes hold the same Shared, Public and template, namely
  the root's, and a write that returns through the Public or Shared of one scope of the
  tree is read back through that of any other.
\<close>

theorem NewChildExecutionContext_shares_Public_Shared:
  "(NewChildExecutionContext s (Some pp) = Inr (c, s1) \<and> pp < next_ectx s \<longrightarrow>
      Public (ectx_heap s1 c) = Public (ectx_heap s pp) \<and>
      Shared (ectx_heap s1 c) = Shared (ectx_heap s pp) \<and>
      template (ectx_heap s1 c) = template (ectx_heap s pp) \<and>
      macroDepth (ectx_heap s1 c) = 0 \<and>
      ectx_heap s1 pp = ectx_heap s pp \<and>
      (SetValue (map_heap s1) (Public (ectx_heap s1 c)) k v = Inr h2 \<longrightarrow>
         GetValue h2 (Public (ectx_heap s1 pp)) k = Inr (v, True)) \<and>
      (SetValue (map_heap s1) (Shared (ectx_heap s1 c)) k v = Inr h2 \<longrightarrow>
         GetValue h2 (Shared (ectx_heap s1 pp)) k = Inr (v, True))) \<and>
   (render_tree root s0 t ps \<and> root < next_ectx s0 \<and> p \<in> set ps \<and> q \<in> set ps \<longrightarrow>
      Shared (ectx_heap t p) = Shared (ectx_heap t q) \<and>
      Public (ectx_heap t p) = Public (ectx_heap t q) \<and>
      template (ectx_heap t p) = template (ectx_heap t q) \<and>
      Shared (ectx_heap t p) = Shared (ectx_heap s0 root) \<and>
      Public (ectx_heap t p) = Public (ectx_heap s0 root) \<and>
      template (ectx_heap t p) = template (ectx_heap s0 root) \<and>
      (SetValue (map_heap t) (Public (ectx_heap t p)) k v = Inr h3 \<longrightarrow>
         GetValue h3 (Public (ectx_heap t q)) k = Inr (v, True)) \<and>
      (SetValue (map_heap t) (Shared (ectx_heap t p)) k v = Inr h3 \<longrightarrow>
         GetValue h3 (Shared (ectx_heap t q)) k = Inr (v, True)))"
proof (intro conjI impI)
  assume A: "render_tree root s0 t ps \<and> root < next_ectx s0 \<and> p \<in> set ps \<and> q \<in> set ps"
  with render_tree_invariant [of root s0 t ps]
  show sh: "Shared (ectx_heap t p) = Shared (ectx_heap t q)"
    and pub: "Public (ectx_heap t p) = Public (ectx_heap t q)"
    and "template (ectx_heap t p) = template (ectx_heap t q)"
    and "Shared (ectx_heap t p) = Shared (ectx_heap s0 root)"
    and "Public (ectx_heap t p) = Public (ectx_heap s0 root)"
    and "template (ectx_heap t p) = template (ectx_heap s0 root)"
    by auto
  {
    assume "SetValue (map_heap t) (Public (ectx_heap t p)) k v = Inr h3"
    then show "GetValue h3 (Public (ectx_heap t q)) k = Inr (v, True)"
      using pub by (auto dest: SetValue_GetValue)
  }
  {
    assume "SetValue (map_heap t) (Shared (ectx_heap t p)) k v = Inr h3"
    then show "GetValue h3 (Shared (ectx_heap t q)) k = Inr (v, True)"
      using sh by (auto dest: SetValue_GetValue)
  }
next
  assume A: "NewChildExecutionContext s (Some pp) = Inr (c, s1) \<and> pp < next_ectx s"
  then have child: "NewChildExecutionContext s (Some pp) = Inr (c, s1)" by simp
  note F = NewChildExecutionContext_fields [OF child]
  from A F(1) have ne: "pp \<noteq> c" by simp
  show pub: "Public (ectx_heap s1 c) = Public (ectx_heap s pp)" by (rule F(7))
  show sh: "Shared (ectx_heap s1 c) = Shared (ectx_heap s pp)" by (rule F(11) [OF ne])
  show "template (ectx_heap s1 c) = template (ectx_heap s pp)" by (rule F(6))
  show "macroDepth (ectx_heap s1 c) = 0" by (rule F(10))
  show same: "ectx_heap s1 pp = ectx_heap s pp" by (rule F(5) [OF ne])
  {
    assume "SetValue (map_heap s1) (Public (ectx_heap s1 c)) k v = Inr h2"
    then show "GetValue h2 (Public (ectx_heap s1 pp)) k = Inr (v, True)"
      using pub same by (auto dest: SetValue_GetValue)
  }
  {
    assume "SetValue (map_heap s1) (Shared (ectx_heap s1 c)) k v = Inr h2"
    then show "GetValue h2 (Shared (ectx_heap s1 pp)) k = Inr (v, True)"
      using sh same by (auto dest: SetValue_GetValue)
  }
qed

lemma example_late_child_eq:
  "NewChildExecutionContext example_written_state (Some (fst example_shared_child)) =
     Inr example_late_child"
  by (simp add: example_late_child_def NewChildExecutionContext_def Let_def new_map_def
      new_ectx_def split: prod.splits)

theorem NewChildExecutionContext_shares_Public_Shared_witness:
  "NewChildExecutionContext (snd example_shared_root) (Some (fst example_shared_root)) =
     Inr example_shared_child \<and>
   fst example_shared_root < next_ectx (snd example_shared_root) \<and>
   macroDepth (ectx_heap (snd example_shared_child) (fst example_shared_child)) = 0 \<and>
   Shared (ectx_heap (snd example_shared_child) (fst example_shared_child)) =
     MapContext (Some 4) \<and>
   SetValue (map_heap (snd example_shared_child))
     (Shared (ectx_heap (snd example_shared_child) (fst example_shared_child)))
     ''counter'' (VInt 5) = Inr example_shared_write \<and>
   GetValue example_shared_write
     (Shared (ectx_heap (snd example_shared_child) (fst example_shared_root))) ''counter'' =
     Inr (VInt 5, True) \<and>
   SetValue (map_heap (snd example_shared_child))
     (Public (ectx_heap (snd example_shared_child) (fst example_shared_child)))
     ''counter'' (VInt 5) = Inr example_public_write \<and>
   GetValue example_public_write
     (Public (ectx_heap (snd example_shared_child) (fst example_shared_root))) ''counter'' =
     Inr (VInt 5, True) \<and>
   render_tree (fst example_shared_root) (snd example_shared_root) (snd example_shared_child)
     [fst example_shared_child, fst example_shared_root] \<and>
   Shared (ectx_heap (snd example_shared_child) (fst example_shared_child)) =
     Shared (ectx_heap (snd example_shared_child) (fst example_shared_root)) \<and>
   render_tree (fst example_shared_root) (snd example_shared_root) (snd example_late_child)
     [fst example_late_child, fst example_shared_child, fst example_shared_root] \<and>
   Shared (ectx_heap (snd example_late_child) (fst example_late_child)) =
     MapContext (Some 4) \<and>
   Shared (ectx_heap (snd example_late_child) (fst example_shared_root)) =
     MapContext (Some 4) \<and>
   SetValue (map_heap (snd example_late_child))
     (Public (ectx_heap (snd example_late_child) (fst example_late_child)))
     ''counter'' (VInt 6) = Inr example_late_write \<and>
   GetValue example_late_write
     (Public (ectx_heap (snd example_late_child) (fst example_shared_root))) ''counter'' =
     Inr (VInt 6, True) \<and>
   GetValue example_late_write
     (Public (ectx_heap (snd example_late_child) (fst example_shared_child))) ''counter'' =
     Inr (VInt 6, True)"
proof -
  let ?r = "fst example_shared_root" and ?s = "snd example_shared_root"
  let ?c = "fst example_shared_child" and ?s1 = "snd example_shared_child"
  let ?g = "fst example_late_child" and ?s3 = "snd example_late_child"
  have 1: "NewChildExecutionContext ?s (Some ?r) = Inr (?c, ?s1)"
    by (simp add: example_shared_child_eq)
  have 2: "?r < next_ectx ?s" by (simp add: example_shared_root_eq)
  have 3: "SetValue (map_heap ?s1) (Shared (ectx_heap ?s1 ?c)) ''counter'' (VInt 5) =
      Inr example_shared_write"
    by (simp add: example_shared_write_def example_shared_child_fields mapContext_SetValue_def)
  have 4: "SetValue (map_heap ?s1) (Public (ectx_heap ?s1 ?c)) ''counter'' (VInt 5) =
      Inr example_public_write"
    by (simp add: example_public_write_def example_shared_child_fields mapContext_SetValue_def
        mergeContexts_def)
  have 5: "render_tree ?r ?s ?s1 [?c, ?r]"
    by (rule render_tree_child [OF render_tree_root _ 1]) simp
  note T1 = NewChildExecutionContext_shares_Public_Shared [where s = ?s and pp = ?r and c = ?c and ?s1.0 = ?s1 and k = "''counter''"
      and v = "VInt 5" and ?h2.0 = example_shared_write and root = ?r and ?s0.0 = ?s
      and t = ?s1 and ps = "[?c, ?r]" and p = ?c and q = ?r]
  note T2 = NewChildExecutionContext_shares_Public_Shared [where s = ?s and pp = ?r and c = ?c and ?s1.0 = ?s1 and k = "''counter''"
      and v = "VInt 5" and ?h2.0 = example_public_write and root = ?r and ?s0.0 = ?s
      and t = ?s1 and ps = "[?c, ?r]" and p = ?c and q = ?r]
  have m: "?c \<in> set [?c, ?r]" "?r \<in> set [?c, ?r]" by simp_all
  from T1 1 2 3 have 6: "macroDepth (ectx_heap ?s1 ?c) = 0"
    and 7: "GetValue example_shared_write (Shared (ectx_heap ?s1 ?r)) ''counter'' =
      Inr (VInt 5, True)"
    by blast+
  from T2 1 2 4 have 8: "GetValue example_public_write (Public (ectx_heap ?s1 ?r)) ''counter'' =
      Inr (VInt 5, True)"
    by blast
  from T1 2 5 m have 9: "Shared (ectx_heap ?s1 ?c) = Shared (ectx_heap ?s1 ?r)"
    by blast
  have 10: "render_tree ?r ?s (?s1\<lparr>map_heap := example_shared_write\<rparr>) [?c, ?r]"
    by (rule render_tree_step [OF 5 render_step_SetValue [OF 3]])
  have 11: "render_tree ?r ?s example_written_state [?c, ?r]"
    unfolding example_written_state_def
    by (rule render_tree_step [OF 10 render_step_assign_Autoescape])
  have 12: "NewChildExecutionContext example_written_state (Some ?c) = Inr (?g, ?s3)"
    by (simp add: example_late_child_eq)
  have 13: "render_tree ?r ?s ?s3 [?g, ?c, ?r]"
    by (rule render_tree_child [OF 11 _ 12]) simp
  have m3: "?g \<in> set [?g, ?c, ?r]" "?c \<in> set [?g, ?c, ?r]" "?r \<in> set [?g, ?c, ?r]"
    by simp_all
  note U = NewChildExecutionContext_shares_Public_Shared [where root = ?r and ?s0.0 = ?s and t = ?s3 and ps = "[?g, ?c, ?r]"
      and k = "''counter''" and v = "VInt 6" and ?h3.0 = example_late_write]
  from U [where p = ?g and q = ?r] 2 13 m3
  have 14: "Shared (ectx_heap ?s3 ?g) = Shared (ectx_heap ?s ?r)"
    "Public (ectx_heap ?s3 ?g) = Public (ectx_heap ?s ?r)"
    by blast+
  from U [where p = ?r and q = ?r] 2 13 m3
  have 15: "Shared (ectx_heap ?s3 ?r) = Shared (ectx_heap ?s ?r)"
    by blast
  have 16: "Shared (ectx_heap ?s ?r) = MapContext (Some 4)"
    "Public (ectx_heap ?s ?r) = mergeContexts example_user_store (MapContext (Some 3))"
    by (simp_all add: example_shared_root_eq)
  have 17: "SetValue (map_heap ?s3) (Public (ectx_heap ?s3 ?g)) ''counter'' (VInt 6) =
      Inr example_late_write"
    by (simp add: example_late_write_def 14 16 mapContext_SetValue_def mergeContexts_def)
  from U [where p = ?g and q = ?r] 2 13 m3 17
  have 18: "GetValue example_late_write (Public (ectx_heap ?s3 ?r)) ''counter'' =
      Inr (VInt 6, True)"
    by blast
  from U [where p = ?g and q = ?c] 2 13 m3 17
  have 19: "GetValue example_late_write (Public (ectx_heap ?s3 ?c)) ''counter'' =
      Inr (VInt 6, True)"
    by blast
  show ?thesis
    using example_shared_child_eq 2 6 example_shared_child_fields(1) 3 7 4 8 5 9
      13 14(1) [unfolded 16] 15 [unfolded 16] 17 18 19
    by blast
qed
section \<open>Root scopes and the metadata map\<close>

lemma program_step_frame:
  assumes "program_step s s'"
  shows "pongo2MetaContext s' = pongo2MetaContext s \<and> next_map s \<le> next_map s' \<and>
         next_ectx s \<le> next_ectx s' \<and>
         (\<forall>p. p < next_ectx s \<longrightarrow> Private (ectx_heap s' p) = Private (ectx_heap s p))"
  using assms
proof (cases rule: program_step.cases)
  case program_step_render
  then show ?thesis
  proof (cases rule: render_step.cases)
    case (render_step_root tpl ctx r)
    note F = newExecutionContext_fields [OF render_step_root]
    from F(1,2,3,13) F(5) show ?thesis by auto
  next
    case (render_step_child parent c)
    then obtain pp where pp: "parent = Some pp"
      by (cases parent) (simp_all add: NewChildExecutionContext_def)
    note F = NewChildExecutionContext_fields [OF render_step_child [unfolded pp]]
    from F(1,2,3,13) F(5) show ?thesis by auto
  qed (auto simp: new_map_def SetAutoescape_def assign_Autoescape_def)
next
  case (program_step_assign_Shared p c)
  then show ?thesis by (auto simp: assign_Shared_def)
qed

lemma program_run_frame:
  assumes "program_step\<^sup>*\<^sup>* s t"
  shows "pongo2MetaContext t = pongo2MetaContext s \<and> next_map s \<le> next_map t \<and>
         next_ectx s \<le> next_ectx t \<and>
         (\<forall>p. p < next_ectx s \<longrightarrow> Private (ectx_heap t p) = Private (ectx_heap s p))"
  using assms
proof (induction rule: rtranclp_induct)
  case base
  show ?case by simp
next
  case (step u t)
  from program_step_frame [OF step.hyps(2)] step.IH show ?case by auto
qed


text \<open>
  C5. Let the package variable \<^verbatim>\<open>pongo2MetaContext\<close> hold an allocated map when a root
  scope is built, and let a second root be built after any run of the program (render
  steps of any render, Shared assignments, writes into the metadata map included), for any
  template and user store. Each root, when built, binds the key pongo2 in its Private
  store to that one map, which the variable still holds. Building the second root changes
  neither the metadata map nor what the first root's Private answers for pongo2; so what
  was written into the map before is read through the second root's binding, and a write
  into the map returns, leaves the bindings in place, and is read back from the map both
  roots reach.
\<close>

theorem newExecutionContext_shares_pongo2MetaContext:
  assumes meta: "pongo2MetaContext s = Some g" and g: "g < next_map s"
    and r1: "newExecutionContext s tpl1 ctx1 = (r1, s1)"
    and run: "program_step\<^sup>*\<^sup>* s1 t"
    and r2: "newExecutionContext t tpl2 ctx2 = (r2, t1)"
  shows "GetValue (map_heap s1) (Private (ectx_heap s1 r1)) ''pongo2'' =
           Inr (VMap (Some g), True) \<and>
         GetValue (map_heap t1) (Private (ectx_heap t1 r2)) ''pongo2'' =
           Inr (VMap (Some g), True) \<and>
         pongo2MetaContext t1 = Some g \<and>
         r1 \<noteq> r2 \<and>
         GetValue (map_heap t1) (Private (ectx_heap t1 r1)) ''pongo2'' =
           GetValue (map_heap t) (Private (ectx_heap t r1)) ''pongo2'' \<and>
         (\<forall>n. GetValue (map_heap t1) (MapContext (Some g)) n =
               GetValue (map_heap t) (MapContext (Some g)) n) \<and>
         (\<exists>h. SetValue (map_heap s1) (MapContext (Some g)) k v = Inr h \<and>
            GetValue h (Private (ectx_heap s1 r1)) ''pongo2'' = Inr (VMap (Some g), True) \<and>
            GetValue h (MapContext (Some g)) k = Inr (v, True)) \<and>
         (\<exists>h3. SetValue (map_heap t1) (MapContext (Some g)) k v = Inr h3 \<and>
            GetValue h3 (Private (ectx_heap t1 r2)) ''pongo2'' = Inr (VMap (Some g), True) \<and>
            GetValue h3 (Private (ectx_heap t1 r1)) ''pongo2'' =
              GetValue (map_heap t) (Private (ectx_heap t r1)) ''pongo2'' \<and>
            GetValue h3 (MapContext (Some g)) k = Inr (v, True))"
proof -
  note F1 = newExecutionContext_fields [OF r1]
  note F2 = newExecutionContext_fields [OF r2]
  note R = program_run_frame [OF run]
  from R F1(13) meta have metat: "pongo2MetaContext t = Some g" by simp
  from R F1(3) g have gt: "g < next_map t" by simp
  from R F1(1,2) F2(1) have ne: "r1 \<noteq> r2" by simp
  have p1: "Private (ectx_heap s1 r1) = MapContext (Some (next_map s))" by (rule F1(8))
  have p1t: "Private (ectx_heap t r1) = MapContext (Some (next_map s))"
    using R F1(1,2,8) by simp
  have p1t1: "Private (ectx_heap t1 r1) = MapContext (Some (next_map s))"
    using F2(5) [OF ne] p1t by simp
  have p2: "Private (ectx_heap t1 r2) = MapContext (Some (next_map t))" by (rule F2(8))
  have lt: "next_map s < next_map t" using R F1(3) by simp
  have A: "GetValue (map_heap s1) (Private (ectx_heap s1 r1)) ''pongo2'' =
      Inr (VMap (Some g), True)"
    by (simp add: p1 F1(4) meta mapContext_GetValue_def)
  have B: "GetValue (map_heap t1) (Private (ectx_heap t1 r2)) ''pongo2'' =
      Inr (VMap (Some g), True)"
    by (simp add: p2 F2(4) metat mapContext_GetValue_def)
  have C: "pongo2MetaContext t1 = Some g" using F2(13) metat by simp
  have D: "GetValue (map_heap t1) (Private (ectx_heap t1 r1)) ''pongo2'' =
      GetValue (map_heap t) (Private (ectx_heap t r1)) ''pongo2''"
    using lt by (simp add: p1t p1t1 F2(4) mapContext_GetValue_def)
  have E: "\<forall>n. GetValue (map_heap t1) (MapContext (Some g)) n =
      GetValue (map_heap t) (MapContext (Some g)) n"
    using gt by (simp add: F2(4) mapContext_GetValue_def)
  define h where "h = (map_heap s1)(g := fmupd k v (map_heap s1 g))"
  have G: "SetValue (map_heap s1) (MapContext (Some g)) k v = Inr h \<and>
      GetValue h (Private (ectx_heap s1 r1)) ''pongo2'' = Inr (VMap (Some g), True) \<and>
      GetValue h (MapContext (Some g)) k = Inr (v, True)"
    using g by (simp add: h_def p1 F1(4) meta mapContext_SetValue_def mapContext_GetValue_def)
  define h3 where "h3 = (map_heap t1)(g := fmupd k v (map_heap t1 g))"
  have H: "SetValue (map_heap t1) (MapContext (Some g)) k v = Inr h3 \<and>
      GetValue h3 (Private (ectx_heap t1 r2)) ''pongo2'' = Inr (VMap (Some g), True) \<and>
      GetValue h3 (Private (ectx_heap t1 r1)) ''pongo2'' =
        GetValue (map_heap t) (Private (ectx_heap t r1)) ''pongo2'' \<and>
      GetValue h3 (MapContext (Some g)) k = Inr (v, True)"
    using g gt lt
    by (simp add: h3_def p2 p1t p1t1 F2(4) metat mapContext_SetValue_def mapContext_GetValue_def)
  from A B C ne D E G H show ?thesis by blast
qed


lemma example_patched_write:
  "SetValue (map_heap (snd example_root)) (MapContext (Some 0)) ''version''
     (VString ''patched'') = Inr (map_heap example_patched_state)"
  by (simp add: example_patched_state_def mapContext_SetValue_def)

theorem newExecutionContext_shares_pongo2MetaContext_witness:
  "pongo2MetaContext example_state = Some 0 \<and> 0 < next_map example_state \<and>
   newExecutionContext example_state (Some 0) example_user_store = example_root \<and>
   program_step\<^sup>*\<^sup>* (snd example_root) example_patched_state \<and>
   newExecutionContext example_patched_state (Some 1) example_user_store = example_late_root \<and>
   GetValue (map_heap (snd example_root))
     (Private (ectx_heap (snd example_root) (fst example_root))) ''pongo2'' =
     Inr (VMap (Some 0), True) \<and>
   GetValue (map_heap (snd example_late_root))
     (Private (ectx_heap (snd example_late_root) (fst example_late_root))) ''pongo2'' =
     Inr (VMap (Some 0), True) \<and>
   GetValue (map_heap (snd example_late_root))
     (Private (ectx_heap (snd example_late_root) (fst example_root))) ''pongo2'' =
     Inr (VMap (Some 0), True) \<and>
   fst example_root \<noteq> fst example_late_root \<and>
   GetValue (map_heap (snd example_late_root)) (MapContext (Some 0)) ''version'' =
     Inr (VString ''patched'', True)"
proof -
  let ?r1 = "fst example_root" and ?s1 = "snd example_root"
  let ?r2 = "fst example_late_root" and ?t1 = "snd example_late_root"
  let ?t = example_patched_state
  have 1: "newExecutionContext example_state (Some 0) example_user_store = (?r1, ?s1)"
    by (simp add: example_root_def)
  have 2: "newExecutionContext ?t (Some 1) example_user_store = (?r2, ?t1)"
    by (simp add: example_late_root_def)
  have 3: "pongo2MetaContext example_state = Some 0"
    by (simp add: example_state_def new_map_def package_init_def)
  have 4: "0 < next_map example_state"
    by (simp add: example_state_def new_map_def package_init_def)
  have st: "?t = ?s1\<lparr>map_heap := map_heap ?t\<rparr>"
    by (simp add: example_patched_state_def)
  have "render_step ?s1 (?s1\<lparr>map_heap := map_heap ?t\<rparr>)"
    by (rule render_step_SetValue [OF example_patched_write])
  with st have "render_step ?s1 ?t" by simp
  then have 5: "program_step\<^sup>*\<^sup>* ?s1 ?t"
    by (intro r_into_rtranclp program_step_render)
  note T = newExecutionContext_shares_pongo2MetaContext [OF 3 4 1 5 2, of "''version''" "VString ''patched''"]
  have 6: "GetValue (map_heap ?t) (MapContext (Some 0)) ''version'' =
      Inr (VString ''patched'', True)"
    by (rule SetValue_GetValue [OF example_patched_write])
  have 7: "GetValue (map_heap ?t) (Private (ectx_heap ?t ?r1)) ''pongo2'' =
      Inr (VMap (Some 0), True)"
    by (simp add: example_patched_state_def example_root_Private mapContext_GetValue_def
        mapContext_SetValue_def)
      (simp add: example_root_eq)
  from T have a: "GetValue (map_heap ?s1) (Private (ectx_heap ?s1 ?r1)) ''pongo2'' =
      Inr (VMap (Some 0), True)"
    and b: "GetValue (map_heap ?t1) (Private (ectx_heap ?t1 ?r2)) ''pongo2'' =
      Inr (VMap (Some 0), True)"
    and c: "?r1 \<noteq> ?r2"
    and d: "GetValue (map_heap ?t1) (Private (ectx_heap ?t1 ?r1)) ''pongo2'' =
      GetValue (map_heap ?t) (Private (ectx_heap ?t ?r1)) ''pongo2''"
    and e: "GetValue (map_heap ?t1) (MapContext (Some 0)) ''version'' =
      GetValue (map_heap ?t) (MapContext (Some 0)) ''version''"
    by blast+
  have 8: "newExecutionContext example_state (Some 0) example_user_store = example_root"
    by (simp add: example_root_def)
  have 9: "newExecutionContext ?t (Some 1) example_user_store = example_late_root"
    by (simp add: example_late_root_def)
  from 3 4 8 5 9 a b d [unfolded 7] c e [unfolded 6] show ?thesis by blast
qed

section \<open>Validating identifiers\<close>

lemma identifier_chars_in_class: "list_all (in_class identifier_class) identifier_chars"
  by (simp add: identifier_chars_def in_class_def in_range_def identifier_class_def)

lemma identifier_chars_codes:
  "map of_char identifier_chars = [97..<123] @ [65..<91] @ [48..<58] @ [95::nat]"
  by (simp add: identifier_chars_def)

lemma in_class_identifier_chars:
  "in_class identifier_class c \<longleftrightarrow> c \<in> set identifier_chars"
proof
  assume "c \<in> set identifier_chars"
  with identifier_chars_in_class show "in_class identifier_class c"
    by (simp add: list_all_iff)
next
  assume a: "in_class identifier_class c"
  define n :: nat where "n = of_char c"
  from a have "(97 \<le> n \<and> n \<le> 122) \<or> (65 \<le> n \<and> n \<le> 90) \<or> (48 \<le> n \<and> n \<le> 57) \<or> n = 95"
    by (auto simp: in_class_def in_range_def identifier_class_def n_def)
  then have "n \<in> set ([97..<123] @ [65..<91] @ [48..<58] @ [95])"
    by (simp del: upt_rec_numeral) arith
  then have "n \<in> set (map of_char identifier_chars)"
    by (simp only: identifier_chars_codes)
  then obtain k where k: "k \<in> set identifier_chars" "(of_char k :: nat) = of_char c"
    unfolding n_def by auto
  from k(2) have "k = c" by simp
  with k(1) show "c \<in> set identifier_chars" by simp
qed


lemma star_Cons:
  "c # w \<in> star A \<longleftrightarrow> (\<exists>u v. w = u @ v \<and> c # u \<in> A \<and> v \<in> star A)"
proof
  assume "c # w \<in> star A"
  then show "\<exists>u v. w = u @ v \<and> c # u \<in> A \<and> v \<in> star A"
  proof (induction "c # w" rule: star.induct)
    case (star_app u v)
    show ?case
    proof (cases u)
      case Nil
      with star_app show ?thesis by simp
    next
      case (Cons d u')
      with star_app.hyps(1,2,4) show ?thesis by auto
    qed
  qed
next
  assume "\<exists>u v. w = u @ v \<and> c # u \<in> A \<and> v \<in> star A"
  then obtain u v where "w = u @ v" "c # u \<in> A" "v \<in> star A" by blast
  then show "c # w \<in> star A" using star_app [of "c # u" A v] by simp
qed

lemma nullable_lang: "nullable r \<longleftrightarrow> [] \<in> lang r"
  by (induction r) (auto intro: star_empty)

lemma deriv_lang: "w \<in> lang (deriv c r) \<longleftrightarrow> c # w \<in> lang r"
proof (induction r arbitrary: w)
  case (Concat r s)
  show ?case
  proof
    assume "w \<in> lang (deriv c (Concat r s))"
    then consider (left) u v where "w = u @ v" "u \<in> lang (deriv c r)" "v \<in> lang s"
      | (right) "nullable r" "w \<in> lang (deriv c s)"
      by (auto split: if_splits)
    then show "c # w \<in> lang (Concat r s)"
    proof cases
      case left
      then have "c # w = (c # u) @ v" "c # u \<in> lang r" using Concat.IH(1) by simp_all
      with left(3) show ?thesis unfolding lang.simps mem_Collect_eq by blast
    next
      case right
      then have "c # w = [] @ (c # w)" "[] \<in> lang r" "c # w \<in> lang s"
        using Concat.IH(2) nullable_lang by simp_all
      then show ?thesis unfolding lang.simps mem_Collect_eq by blast
    qed
  next
    assume "c # w \<in> lang (Concat r s)"
    then obtain u v where uv: "c # w = u @ v" "u \<in> lang r" "v \<in> lang s" by auto
    show "w \<in> lang (deriv c (Concat r s))"
    proof (cases u)
      case Nil
      with uv have "nullable r" "w \<in> lang (deriv c s)"
        using Concat.IH(2) nullable_lang by simp_all
      then show ?thesis by simp
    next
      case (Cons d u')
      with uv have "w = u' @ v" "u' \<in> lang (deriv c r)" using Concat.IH(1) by simp_all
      with uv(3) show ?thesis by auto
    qed
  qed
next
  case (Star r)
  show ?case using Star.IH by (auto simp: star_Cons)
qed auto

lemma match_all_lang: "match_all r s \<longleftrightarrow> s \<in> lang r"
  by (induction s arbitrary: r) (simp_all add: nullable_lang deriv_lang)

lemma star_CharClass: "s \<in> star {[c] | c. P c} \<longleftrightarrow> list_all P s"
proof
  assume "s \<in> star {[c] | c. P c}"
  then show "list_all P s" by (induction rule: star.induct) auto
next
  assume "list_all P s"
  then show "s \<in> star {[c] | c. P c}"
  proof (induction s)
    case Nil
    show ?case by (rule star_empty)
  next
    case (Cons c s)
    then have "[c] \<in> {[c] | c. P c}" "s \<in> star {[c] | c. P c}" by simp_all
    then have "[c] @ s \<in> star {[c] | c. P c}" by (rule star_app)
    then show ?case by simp
  qed
qed

lemma MatchString_Plus_CharClass:
  "MatchString (Plus (CharClass rs)) s \<longleftrightarrow> s \<noteq> [] \<and> list_all (in_class rs) s"
proof (cases s)
  case Nil
  then show ?thesis by (simp add: MatchString_def Plus_def)
next
  case (Cons c cs)
  have "c # cs \<in> lang (Plus (CharClass rs)) \<longleftrightarrow> in_class rs c \<and> list_all (in_class rs) cs"
  proof
    assume "c # cs \<in> lang (Plus (CharClass rs))"
    then show "in_class rs c \<and> list_all (in_class rs) cs"
      by (auto simp: Plus_def star_CharClass)
  next
    assume "in_class rs c \<and> list_all (in_class rs) cs"
    then have "[c] \<in> lang (CharClass rs)" "cs \<in> lang (Star (CharClass rs))"
      "c # cs = [c] @ cs"
      by (simp_all add: star_CharClass)
    then show "c # cs \<in> lang (Plus (CharClass rs))"
      unfolding Plus_def lang.simps(4) mem_Collect_eq by blast
  qed
  with Cons show ?thesis by (simp add: MatchString_def match_all_lang del: match_all.simps)
qed

lemma MatchString_reIdentifiers: "MatchString reIdentifiers v \<longleftrightarrow> valid_identifier v"
proof -
  have "in_class identifier_class = (\<lambda>c. c \<in> set identifier_chars)"
    by (rule ext) (rule in_class_identifier_chars)
  then show ?thesis
    by (simp add: reIdentifiers_def MatchString_Plus_CharClass valid_identifier_def)
qed

lemma checkForValidIdentifiers_find:
  "checkForValidIdentifiers ids =
     map_option validation_error (List.find (\<lambda>v. \<not> valid_identifier v) ids)"
  by (induction ids)
    (simp_all add: MatchString_reIdentifiers validation_error_def Error_zero_def
      invalid_identifier_error_def)

lemma find_skip_prefix:
  "(\<forall>v \<in> set pre. \<not> P v) \<Longrightarrow> List.find P (pre @ rest) = List.find P rest"
  by (induction pre) simp_all

text \<open>
  C6. \<^verbatim>\<open>checkForValidIdentifiers\<close> returns nil exactly when every name of the sequence is
  non-empty and made of letters, digits and underscores only, so also for the empty
  sequence. Otherwise it returns the error for the first name in sequence order that is
  not well-formed, whatever follows that name: an error with the fixed sender tag
  \<^verbatim>\<open>checkForValidIdentifiers\<close>, every location field at its zero value, and the message
  \<^verbatim>\<open>context-key '...' is not a valid identifier\<close> quoting that name.
\<close>

theorem checkForValidIdentifiers_first_invalid:
  "(checkForValidIdentifiers ids = None \<longleftrightarrow> (\<forall>v \<in> set ids. valid_identifier v)) \<and>
   checkForValidIdentifiers ids =
     map_option validation_error (List.find (\<lambda>v. \<not> valid_identifier v) ids) \<and>
   (ids = pre @ bad # post \<and> (\<forall>v \<in> set pre. valid_identifier v) \<and> \<not> valid_identifier bad \<longrightarrow>
      checkForValidIdentifiers ids =
        Some \<lparr>Template = None, Filename = [], Line = 0, Column = 0, Token = None,
              Sender = ''checkForValidIdentifiers'',
              OrigError =
                Some (GoError (''context-key '' @ [CHR 0x27] @ bad @ [CHR 0x27] @
                               '' is not a valid identifier''))\<rparr>) \<and>
   Sender (validation_error bad) = ''checkForValidIdentifiers'' \<and>
   OrigError (validation_error bad) = Some (invalid_identifier_error bad) \<and>
   invalid_identifier_error bad =
     GoError (''context-key '' @ [CHR 0x27] @ bad @ [CHR 0x27] @ '' is not a valid identifier'')"
proof (intro conjI impI)
  show "checkForValidIdentifiers ids = None \<longleftrightarrow> (\<forall>v \<in> set ids. valid_identifier v)"
    by (auto simp: checkForValidIdentifiers_find find_None_iff)
  show "checkForValidIdentifiers ids =
     map_option validation_error (List.find (\<lambda>v. \<not> valid_identifier v) ids)"
    by (rule checkForValidIdentifiers_find)
  show "Sender (validation_error bad) = ''checkForValidIdentifiers''"
    by (simp add: validation_error_def)
  show "OrigError (validation_error bad) = Some (invalid_identifier_error bad)"
    by (simp add: validation_error_def invalid_identifier_error_def)
  show "invalid_identifier_error bad =
     GoError (''context-key '' @ [CHR 0x27] @ bad @ [CHR 0x27] @ '' is not a valid identifier'')"
    by (simp add: invalid_identifier_error_def)
next
  assume A: "ids = pre @ bad # post \<and> (\<forall>v \<in> set pre. valid_identifier v) \<and>
    \<not> valid_identifier bad"
  then have "List.find (\<lambda>v. \<not> valid_identifier v) (pre @ bad # post) =
      List.find (\<lambda>v. \<not> valid_identifier v) (bad # post)"
    by (intro find_skip_prefix) simp
  with A have "checkForValidIdentifiers ids = Some (validation_error bad)"
    by (simp add: checkForValidIdentifiers_find)
  then show "checkForValidIdentifiers ids =
        Some \<lparr>Template = None, Filename = [], Line = 0, Column = 0, Token = None,
              Sender = ''checkForValidIdentifiers'',
              OrigError =
                Some (GoError (''context-key '' @ [CHR 0x27] @ bad @ [CHR 0x27] @
                               '' is not a valid identifier''))\<rparr>"
    unfolding validation_error_def .
qed

theorem checkForValidIdentifiers_first_invalid_witness:
  "checkForValidIdentifiers [''a_1'', ''Foo'', ''_''] = None \<and>
   checkForValidIdentifiers [] = None \<and>
   checkForValidIdentifiers [''a-1''] = Some (validation_error ''a-1'') \<and>
   checkForValidIdentifiers [[]] = Some (validation_error []) \<and>
   checkForValidIdentifiers [''a b''] = Some (validation_error ''a b'') \<and>
   checkForValidIdentifiers [''ok'', ''a-1'', ''b c''] =
     Some \<lparr>Template = None, Filename = [], Line = 0, Column = 0, Token = None,
           Sender = ''checkForValidIdentifiers'',
           OrigError =
             Some (GoError (''context-key '' @ [CHR 0x27] @ ''a-1'' @ [CHR 0x27] @
                            '' is not a valid identifier''))\<rparr> \<and>
   Sender (validation_error ''a-1'') = ''checkForValidIdentifiers''"
proof -
  have v: "valid_identifier ''a_1''" "valid_identifier ''Foo''" "valid_identifier ''_''"
    "valid_identifier ''ok''" "\<not> valid_identifier ''a-1''" "\<not> valid_identifier []"
    "\<not> valid_identifier ''a b''"
    by (simp_all add: valid_identifier_def identifier_chars_def)
  note N = checkForValidIdentifiers_first_invalid [THEN conjunct1]
  note F = checkForValidIdentifiers_first_invalid
    [THEN conjunct2, THEN conjunct2, THEN conjunct1, rule_format, folded validation_error_def]
  note S = checkForValidIdentifiers_first_invalid
    [THEN conjunct2, THEN conjunct2, THEN conjunct2, THEN conjunct1]
  from v have 1: "checkForValidIdentifiers [''a_1'', ''Foo'', ''_''] = None"
    by (subst N) simp
  have 2: "checkForValidIdentifiers [] = None"
    by (subst N) simp
  have 3: "checkForValidIdentifiers [''a-1''] = Some (validation_error ''a-1'')"
    by (rule F [of _ "[]" _ "[]"]) (simp add: v)
  have 4: "checkForValidIdentifiers [[]] = Some (validation_error [])"
    by (rule F [of _ "[]" _ "[]"]) (simp add: v)
  have 5: "checkForValidIdentifiers [''a b''] = Some (validation_error ''a b'')"
    by (rule F [of _ "[]" _ "[]"]) (simp add: v)
  have 6: "checkForValidIdentifiers [''ok'', ''a-1'', ''b c''] = Some (validation_error ''a-1'')"
    by (rule F [of _ "[''ok'']" _ "[''b c'']"]) (simp add: v)
  have 7: "Sender (validation_error ''a-1'') = ''checkForValidIdentifiers''"
    by (rule S)
  from 1 2 3 4 5 6 [unfolded validation_error_def] 7 show ?thesis by blast
qed

section \<open>Reporting errors\<close>

text \<open>
  C7. For a scope whose template pointer is set, \<^verbatim>\<open>OrigError\<close> and \<^verbatim>\<open>Error\<close> return
  an error (they do not panic, with or without a token) whose Sender is the execution
  tag, whose Template is the scope's template and whose cause is the one given
  (\<^verbatim>\<open>Error\<close> wraps its message). Without a token the location is line 0, column 0 and
  the template's name; with a token it is the token's filename, line and column.
\<close>

theorem ExecutionContext_OrigError_location:
  assumes tpl: "template (ectx_heap s cp) = Some tp"
  shows "ExecutionContext_OrigError s (Some cp) err None =
           Inr \<lparr>Template = Some tp, Filename = name (templates s tp), Line = 0, Column = 0,
                Token = None, Sender = ''execution'', OrigError = err\<rparr> \<and>
         ExecutionContext_OrigError s (Some cp) err (Some tk) =
           Inr \<lparr>Template = Some tp, Filename = Token_Filename (tokens s tk),
                Line = Token_Line (tokens s tk), Column = Token_Col (tokens s tk),
                Token = Some tk, Sender = ''execution'', OrigError = err\<rparr> \<and>
         ExecutionContext_Error s (Some cp) msg token =
           ExecutionContext_OrigError s (Some cp) (Some (errors_New msg)) token \<and>
         (\<exists>e. ExecutionContext_Error s (Some cp) msg token = Inr e \<and>
              Sender e = ''execution'' \<and> Template e = template (ectx_heap s cp) \<and>
              OrigError e = Some (GoError msg) \<and> Token e = token)"
  using tpl
  by (cases token)
    (simp_all add: ExecutionContext_OrigError_def ExecutionContext_Error_def errors_New_def)

theorem ExecutionContext_OrigError_location_witness:
  "template (ectx_heap (snd example_root) (fst example_root)) = Some 0 \<and>
   ExecutionContext_Error (snd example_root) (Some (fst example_root)) ''boom'' None =
     Inr \<lparr>Template = Some 0, Filename = ''index.html'', Line = 0, Column = 0,
          Token = None, Sender = ''execution'', OrigError = Some (GoError ''boom'')\<rparr> \<and>
   ExecutionContext_Error (snd example_root) (Some (fst example_root)) ''boom'' (Some 5) =
     Inr \<lparr>Template = Some 0, Filename = ''base.html'', Line = 3, Column = 7,
          Token = Some 5, Sender = ''execution'', OrigError = Some (GoError ''boom'')\<rparr>"
proof -
  have 1: "template (ectx_heap (snd example_root) (fst example_root)) = Some 0"
    by (simp add: example_root_eq ExecutionContext_zero_def)
  have 2: "templates (snd example_root) 0 = \<lparr>name = ''index.html''\<rparr>"
    "tokens (snd example_root) 5 =
       \<lparr>Token_Filename = ''base.html'', Token_Line = 3, Token_Col = 7\<rparr>"
    by (simp_all add: example_root_eq example_state_def new_map_def package_init_def)
  note T = ExecutionContext_OrigError_location [OF 1, of "Some (errors_New ''boom'')" 5 "''boom''"]
  from T [of None] T [of "Some 5"] 1 show ?thesis
    by (simp add: 2 errors_New_def)
qed

section \<open>Listing identifiers\<close>

lemma mapContext_GetIdentifiers_loop_eq:
  "mapContext_GetIdentifiers_loop kvs identifiers = identifiers @ map fst kvs"
  by (induction kvs arbitrary: identifiers) simp_all

lemma GetIdentifiers_MapContext:
  "GetIdentifiers h (MapContext m) r \<longleftrightarrow> (\<exists>kvs. range_visit h m kvs \<and> r = Inr (map fst kvs))"
  by (subst GetIdentifiers.simps) (auto simp: mapContext_GetIdentifiers_loop_eq)

lemma append_identifiers_Inr:
  "append_identifiers h x ids (Inr r) \<longleftrightarrow> (\<exists>l. GetIdentifiers h x (Inr l) \<and> r = ids @ l)"
proof
  assume "append_identifiers h x ids (Inr r)"
  then show "\<exists>l. GetIdentifiers h x (Inr l) \<and> r = ids @ l"
    by (subst (asm) append_identifiers.simps) auto
next
  assume "\<exists>l. GetIdentifiers h x (Inr l) \<and> r = ids @ l"
  then obtain l where l: "GetIdentifiers h x (Inr l)" "r = ids @ l" by blast
  show "append_identifiers h x ids (Inr r)"
  proof (cases "length l > 0")
    case True
    from append_identifiers_append [OF l(1) True l(1)] l(2) show ?thesis by simp
  next
    case False
    from append_identifiers_skip [OF l(1) False] l(2) False show ?thesis by simp
  qed
qed

lemma GetIdentifiers_MergedContext:
  "GetIdentifiers h (MergedContext a b) (Inr ids) \<longleftrightarrow>
     (\<exists>ka kb. GetIdentifiers h a (Inr ka) \<and> GetIdentifiers h b (Inr kb) \<and> ids = ka @ kb)"
  by (subst GetIdentifiers.simps) (auto simp: append_identifiers_Inr)

lemma range_of_keys:
  "range_of m kvs \<Longrightarrow> distinct (map fst kvs) \<and> set (map fst kvs) = fset (fmdom m)"
proof -
  assume r: "range_of m kvs"
  then have eq: "fset_of_list (map fst kvs) = fmdom m" and d: "distinct (map fst kvs)"
    by (simp_all add: range_of_def)
  have "set (map fst kvs) = fset (fset_of_list (map fst kvs))"
    by (simp only: fset_of_list.rep_eq)
  with eq d show ?thesis by (simp only:)
qed

lemma range_of_exists: "\<exists>kvs. range_of m kvs"
proof -
  obtain ks where ks: "set ks = fset (fmdom m)" "distinct ks"
    using finite_distinct_list [of "fset (fmdom m)"] by auto
  define kvs where "kvs = map (\<lambda>k. (k, the (fmlookup m k))) ks"
  have fst: "map fst kvs = ks" by (simp add: kvs_def comp_def)
  have "fset_of_list ks = fmdom m" using ks(1) by (simp add: fset_eq_iff fset_of_list.rep_eq) 
  moreover have "list_all (\<lambda>kv. fmlookup m (fst kv) = Some (snd kv)) kvs"
    using ks(1) by (auto simp: kvs_def list_all_iff)
  ultimately show ?thesis using ks(2) fst unfolding range_of_def by auto
qed

lemma count_list_distinct:
  "distinct ks \<Longrightarrow> count_list ks n = (if n \<in> set ks then 1 else 0)"
  by (induction ks) auto


text \<open>
  C8. \<^verbatim>\<open>GetIdentifiers\<close> of a merged store returns exactly the lists made of a list the
  base returns followed by a list the overlay returns, nothing removed. For a map it
  returns (and does return) a list holding each key of the table exactly once. So over
  two maps a name occurs once for each side that holds it: twice when both do.
\<close>

theorem GetIdentifiers_concatenates:
  "(GetIdentifiers h (mergeContexts a b) (Inr ids) \<longleftrightarrow>
      (\<exists>ka kb. GetIdentifiers h a (Inr ka) \<and> GetIdentifiers h b (Inr kb) \<and> ids = ka @ kb)) \<and>
   (GetIdentifiers h (MapContext (Some p)) (Inr ks) \<longrightarrow>
      distinct ks \<and> set ks = fset (fmdom (h p))) \<and>
   (\<exists>ks'. GetIdentifiers h (MapContext (Some p)) (Inr ks')) \<and>
   (GetIdentifiers h (mergeContexts (MapContext (Some p)) (MapContext (Some q))) (Inr ids) \<longrightarrow>
      (\<forall>n. count_list ids n =
         (if n |\<in>| fmdom (h p) then 1 else 0) + (if n |\<in>| fmdom (h q) then 1 else 0)))"
proof -
  have merged: "GetIdentifiers h (mergeContexts a b) (Inr ids) \<longleftrightarrow>
      (\<exists>ka kb. GetIdentifiers h a (Inr ka) \<and> GetIdentifiers h b (Inr kb) \<and> ids = ka @ kb)"
    unfolding mergeContexts_def by (rule GetIdentifiers_MergedContext)
  have flat: "distinct l \<and> set l = fset (fmdom (h r))"
    if "GetIdentifiers h (MapContext (Some r)) (Inr l)" for r l
    using that by (auto simp: GetIdentifiers_MapContext range_visit_def dest: range_of_keys)
  have ex: "\<exists>ks'. GetIdentifiers h (MapContext (Some p)) (Inr ks')"
    using range_of_exists [of "h p"]
    by (auto simp: GetIdentifiers_MapContext range_visit_def)
  have twice: "\<forall>n. count_list ids n =
         (if n |\<in>| fmdom (h p) then 1 else 0) + (if n |\<in>| fmdom (h q) then 1 else 0)"
    if "GetIdentifiers h (mergeContexts (MapContext (Some p)) (MapContext (Some q))) (Inr ids)"
  proof -
    from that obtain ka kb where k: "GetIdentifiers h (MapContext (Some p)) (Inr ka)"
      "GetIdentifiers h (MapContext (Some q)) (Inr kb)" "ids = ka @ kb"
      unfolding mergeContexts_def GetIdentifiers_MergedContext by blast
    from flat [OF k(1)] flat [OF k(2)] k(3) show ?thesis
      by (simp add: count_list_distinct)
  qed
  from merged flat [of p ks] ex twice show ?thesis by blast
qed


theorem GetIdentifiers_concatenates_witness:
  "GetIdentifiers example_ids_heap (MapContext (Some 0)) (Inr [''x'']) \<and>
   GetIdentifiers example_ids_heap (MapContext (Some 1)) (Inr [''y'', ''x'']) \<and>
   GetIdentifiers example_ids_heap (mergeContexts (MapContext (Some 0)) (MapContext (Some 1)))
     (Inr [''x'', ''y'', ''x'']) \<and>
   set [''y'', ''x''] = fset (fmdom (example_ids_heap 1)) \<and>
   count_list [''x'', ''y'', ''x''] ''x'' = 2 \<and>
   count_list [''x'', ''y'', ''x''] ''y'' = 1"
proof -
  let ?h = example_ids_heap
  have "range_visit ?h (Some 0) [(''x'', VInt 1)]"
    by (simp add: range_visit_def range_of_def example_ids_heap_def)
  from GetIdentifiers_map [OF this] have 1: "GetIdentifiers ?h (MapContext (Some 0)) (Inr [''x''])"
    by simp
  have "range_visit ?h (Some 1) [(''y'', VInt 3), (''x'', VInt 2)]"
    by (simp add: range_visit_def range_of_def example_ids_heap_def)
  from GetIdentifiers_map [OF this]
  have 2: "GetIdentifiers ?h (MapContext (Some 1)) (Inr [''y'', ''x''])"
    by simp
  note T = GetIdentifiers_concatenates [of ?h "MapContext (Some 0)" "MapContext (Some 1)" "[''x'', ''y'', ''x'']" 1
      "[''y'', ''x'']" 0]
  have app: "[''x'', ''y'', ''x''] = [''x''] @ [''y'', ''x'']" by simp
  from T [THEN conjunct1] 1 2 app
  have 3: "GetIdentifiers ?h (mergeContexts (MapContext (Some 0)) (MapContext (Some 1)))
     (Inr [''x'', ''y'', ''x''])"
    by blast
  from T 2 have 4: "set [''y'', ''x''] = fset (fmdom (?h 1))" by blast
  note U = GetIdentifiers_concatenates [of ?h "MapContext (Some 0)" "MapContext (Some 1)" "[''x'', ''y'', ''x'']" 0
      "[''x'']" 1]
  from U 3 have 5: "\<forall>n. count_list [''x'', ''y'', ''x''] n =
         (if n |\<in>| fmdom (?h 0) then 1 else 0) + (if n |\<in>| fmdom (?h 1) then 1 else 0)"
    by blast
  have 6: "count_list [''x'', ''y'', ''x''] ''x'' = 2" "count_list [''x'', ''y'', ''x''] ''y'' = 1"
    unfolding 5 [rule_format] by (simp_all add: example_ids_heap_def)
  from 1 2 3 4 6 show ?thesis by blast
qed

section \<open>The autoescape flag\<close>

text \<open>
  C9. A root scope takes the value the package variable \<^verbatim>\<open>autoescape\<close> has when the
  scope is built; \<^verbatim>\<open>SetAutoescape\<close> afterwards changes the variable and no scope. A child
  takes its parent's flag; assigning the child's flag afterwards changes the child alone:
  the parent, a sibling derived later and every other scope keep theirs.
\<close>

theorem Autoescape_copied_by_value:
  "(newExecutionContext s tpl ctx = (r, s1) \<longrightarrow>
      Autoescape (ectx_heap s1 r) = autoescape s \<and>
      Autoescape (ectx_heap (SetAutoescape s1 v) r) = autoescape s \<and>
      autoescape (SetAutoescape s1 v) = v) \<and>
   ectx_heap (SetAutoescape t v) = ectx_heap t \<and>
   (NewChildExecutionContext u (Some pp) = Inr (c, u1) \<and> pp < next_ectx u \<longrightarrow>
      Autoescape (ectx_heap u1 c) = Autoescape (ectx_heap u pp) \<and>
      Autoescape (ectx_heap (assign_Autoescape u1 c v) c) = v \<and>
      Autoescape (ectx_heap (assign_Autoescape u1 c v) pp) = Autoescape (ectx_heap u pp)) \<and>
   (NewChildExecutionContext u (Some pp) = Inr (c, u1) \<and> pp < next_ectx u \<and>
    NewChildExecutionContext u1 (Some pp) = Inr (c', u2) \<longrightarrow>
      c' \<noteq> c \<and>
      Autoescape (ectx_heap (assign_Autoescape u2 c v) c') = Autoescape (ectx_heap u pp)) \<and>
   (\<forall>q. q \<noteq> c \<longrightarrow> ectx_heap (assign_Autoescape t c v) q = ectx_heap t q)"
proof -
  have root: "Autoescape (ectx_heap s1 r) = autoescape s \<and>
      Autoescape (ectx_heap (SetAutoescape s1 v) r) = autoescape s \<and>
      autoescape (SetAutoescape s1 v) = v"
    if "newExecutionContext s tpl ctx = (r, s1)"
    using newExecutionContext_fields(9) [OF that] by (simp add: SetAutoescape_def)
  have glob: "ectx_heap (SetAutoescape t v) = ectx_heap t"
    by (simp add: SetAutoescape_def)
  have other: "\<forall>q. q \<noteq> c \<longrightarrow> ectx_heap (assign_Autoescape t c v) q = ectx_heap t q"
    by (simp add: assign_Autoescape_def)
  have child: "Autoescape (ectx_heap u1 c) = Autoescape (ectx_heap u pp) \<and>
      Autoescape (ectx_heap (assign_Autoescape u1 c v) c) = v \<and>
      Autoescape (ectx_heap (assign_Autoescape u1 c v) pp) = Autoescape (ectx_heap u pp)"
    if d: "NewChildExecutionContext u (Some pp) = Inr (c, u1)" and pp: "pp < next_ectx u"
  proof -
    note F = NewChildExecutionContext_fields [OF d]
    from pp F(1) have ne: "pp \<noteq> c" by simp
    from F(5) [OF ne] F(9) ne show ?thesis by (simp add: assign_Autoescape_def)
  qed
  have sibling: "c' \<noteq> c \<and>
      Autoescape (ectx_heap (assign_Autoescape u2 c v) c') = Autoescape (ectx_heap u pp)"
    if d: "NewChildExecutionContext u (Some pp) = Inr (c, u1)" and pp: "pp < next_ectx u"
      and d': "NewChildExecutionContext u1 (Some pp) = Inr (c', u2)"
  proof -
    note F = NewChildExecutionContext_fields [OF d]
    note G = NewChildExecutionContext_fields [OF d']
    from pp F(1) have ne: "pp \<noteq> c" by simp
    from F(1,2) G(1) have ne': "c' \<noteq> c" by simp
    from G(9) F(5) [OF ne] ne' show ?thesis by (simp add: assign_Autoescape_def)
  qed
  from root glob other child sibling show ?thesis by blast
qed


lemma example_sibling_eq:
  "NewChildExecutionContext (snd example_child) (Some (fst example_root)) = Inr example_sibling"
  by (simp add: example_sibling_def NewChildExecutionContext_def Let_def new_map_def new_ectx_def
      split: prod.splits)

theorem Autoescape_copied_by_value_witness:
  "newExecutionContext example_state (Some 0) example_user_store = example_root \<and>
   autoescape example_state = True \<and>
   Autoescape (ectx_heap (SetAutoescape (snd example_root) False) (fst example_root)) = True \<and>
   autoescape (SetAutoescape (snd example_root) False) = False \<and>
   NewChildExecutionContext (snd example_root) (Some (fst example_root)) = Inr example_child \<and>
   fst example_root < next_ectx (snd example_root) \<and>
   NewChildExecutionContext (snd example_child) (Some (fst example_root)) =
     Inr example_sibling \<and>
   Autoescape (ectx_heap (assign_Autoescape (snd example_child) (fst example_child) False)
     (fst example_child)) = False \<and>
   Autoescape (ectx_heap (assign_Autoescape (snd example_child) (fst example_child) False)
     (fst example_root)) = True \<and>
   Autoescape (ectx_heap (assign_Autoescape (snd example_sibling) (fst example_child) False)
     (fst example_sibling)) = True"
proof -
  let ?r = "fst example_root" and ?s1 = "snd example_root"
  let ?c = "fst example_child" and ?s2 = "snd example_child"
  let ?c' = "fst example_sibling" and ?s3 = "snd example_sibling"
  have 1: "newExecutionContext example_state (Some 0) example_user_store = (?r, ?s1)"
    by (simp add: example_root_def)
  have 2: "autoescape example_state = True"
    by (simp add: example_state_def new_map_def package_init_def)
  have 3: "NewChildExecutionContext ?s1 (Some ?r) = Inr (?c, ?s2)"
    by (simp add: example_child_eq)
  have 4: "?r < next_ectx ?s1" by (simp add: example_root_eq)
  have 5: "NewChildExecutionContext ?s2 (Some ?r) = Inr (?c', ?s3)"
    by (simp add: example_sibling_eq)
  have 6: "Autoescape (ectx_heap ?s1 ?r) = True"
    by (simp add: example_root_eq ExecutionContext_zero_def)
  note T = Autoescape_copied_by_value [where s = example_state and tpl = "Some 0" and ctx = example_user_store
      and r = ?r and ?s1.0 = ?s1 and v = False and u = ?s1 and pp = ?r and c = ?c
      and ?u1.0 = ?s2 and c' = ?c' and ?u2.0 = ?s3]
  from T 1 have a: "Autoescape (ectx_heap (SetAutoescape ?s1 False) ?r) = autoescape example_state"
    "autoescape (SetAutoescape ?s1 False) = False"
    by blast+
  from T 3 4 5
  have b: "Autoescape (ectx_heap (assign_Autoescape ?s2 ?c False) ?c) = False"
    "Autoescape (ectx_heap (assign_Autoescape ?s2 ?c False) ?r) = Autoescape (ectx_heap ?s1 ?r)"
    "Autoescape (ectx_heap (assign_Autoescape ?s3 ?c False) ?c') = Autoescape (ectx_heap ?s1 ?r)"
    by blast+
  have 7: "newExecutionContext example_state (Some 0) example_user_store = example_root"
    by (simp add: example_root_def)
  from a [unfolded 2] b [unfolded 6] 2 4 7 example_child_eq example_sibling_eq show ?thesis
    by blast
qed

section \<open>Updating a Context\<close>

lemma Context_Update_loop_Some:
  "Context_Update_loop h (Some p) kvs =
     Inr (h(p := fold (\<lambda>kv m. fmupd (fst kv) (snd kv) m) kvs (h p)))"
  by (induction kvs arbitrary: h) (simp_all add: mapContext_SetValue_def)

lemma Context_Update_loop_None:
  "Context_Update_loop h None kvs = (if kvs = [] then Inr h else Inl AssignmentToNilMap)"
  by (cases kvs) (simp_all add: mapContext_SetValue_def)

lemma fmlookup_fold_fmupd:
  "list_all (\<lambda>kv. fmlookup mo (fst kv) = Some (snd kv)) kvs \<Longrightarrow>
   fmlookup (fold (\<lambda>kv m. fmupd (fst kv) (snd kv) m) kvs m) k =
     (if k \<in> fst ` set kvs then fmlookup mo k else fmlookup m k)"
  by (induction kvs arbitrary: m) auto

lemma range_visit_keys:
  "range_visit h other kvs \<Longrightarrow>
   (k \<in> fst ` set kvs \<longleftrightarrow> snd (mapContext_GetValue h other k))"
proof (cases other)
  case None
  assume "range_visit h other kvs"
  with None show ?thesis by (simp add: range_visit_def mapContext_GetValue_def)
next
  case (Some q)
  assume "range_visit h other kvs"
  with Some have r: "range_of (h q) kvs" by (simp add: range_visit_def)
  from range_of_keys [OF r] have "fst ` set kvs = fset (fmdom (h q))" by simp
  then have "k \<in> fst ` set kvs \<longleftrightarrow> k |\<in>| fmdom (h q)" by simp
  also have "\<dots> \<longleftrightarrow> fmlookup (h q) k \<noteq> None" by (auto dest: fmdom_notD intro: fmdomI)
  finally show ?thesis using Some
    by (auto simp: mapContext_GetValue_def split: option.splits)
qed


text \<open>
  C10 (amended). Let the loop of \<^verbatim>\<open>c.Update(other)\<close> visit the entries of \<open>other\<close>
  in any order. When \<open>c\<close> is not the nil map, or \<open>other\<close> has no entry, the
  call returns the map value \<open>c\<close> itself; afterwards \<open>c\<close> binds every key of
  \<open>other\<close> to the value \<open>other\<close> had for it and every other key as before, and no
  other map has changed. When \<open>c\<close> is the nil map and \<open>other\<close> has an entry, the
  call panics on the first assignment.
\<close>

theorem Context_Update_in_place:
  "range_visit h other kvs \<longrightarrow>
     (c \<noteq> None \<or> kvs = [] \<longrightarrow>
        (\<exists>h'. Context_Update h c kvs = Inr (c, h') \<and>
           (\<forall>k. mapContext_GetValue h' c k =
                 (if snd (mapContext_GetValue h other k) then mapContext_GetValue h other k
                  else mapContext_GetValue h c k)) \<and>
           (\<forall>a. Some a \<noteq> c \<longrightarrow> h' a = h a))) \<and>
     (c = None \<and> kvs \<noteq> [] \<longrightarrow> Context_Update h c kvs = Inl AssignmentToNilMap)"
proof (intro impI conjI)
  assume rv: "range_visit h other kvs" and "c = None \<and> kvs \<noteq> []"
  then show "Context_Update h c kvs = Inl AssignmentToNilMap"
    by (simp add: Context_Update_def Context_Update_loop_None)
next
  assume rv: "range_visit h other kvs" and ok: "c \<noteq> None \<or> kvs = []"
  show "\<exists>h'. Context_Update h c kvs = Inr (c, h') \<and>
           (\<forall>k. mapContext_GetValue h' c k =
                 (if snd (mapContext_GetValue h other k) then mapContext_GetValue h other k
                  else mapContext_GetValue h c k)) \<and>
           (\<forall>a. Some a \<noteq> c \<longrightarrow> h' a = h a)"
  proof (cases c)
    case None
    with ok have e: "kvs = []" by simp
    with rv have "\<not> snd (mapContext_GetValue h other k)" for k
      using range_visit_keys [of h other kvs k] by simp
    with None e show ?thesis
      by (simp add: Context_Update_def)
  next
    case (Some p)
    define h' where "h' = h(p := fold (\<lambda>kv m. fmupd (fst kv) (snd kv) m) kvs (h p))"
    have u: "Context_Update h c kvs = Inr (c, h')"
      by (simp add: Some Context_Update_def Context_Update_loop_Some h'_def)
    have f: "\<forall>a. Some a \<noteq> c \<longrightarrow> h' a = h a"
      by (simp add: Some h'_def)
    have g: "mapContext_GetValue h' c k =
        (if snd (mapContext_GetValue h other k) then mapContext_GetValue h other k
         else mapContext_GetValue h c k)" for k
    proof (cases other)
      case None
      with rv have "kvs = []" by (simp add: range_visit_def)
      with None Some show ?thesis by (simp add: h'_def mapContext_GetValue_def)
    next
      case (Some q)
      with rv have r: "range_of (h q) kvs" by (simp add: range_visit_def)
      then have la: "list_all (\<lambda>kv. fmlookup (h q) (fst kv) = Some (snd kv)) kvs"
        by (simp add: range_of_def)
      have "fmlookup (h' p) k =
          (if k \<in> fst ` set kvs then fmlookup (h q) k else fmlookup (h p) k)"
        by (simp add: h'_def fmlookup_fold_fmupd [OF la])
      moreover have "k \<in> fst ` set kvs \<longleftrightarrow> snd (mapContext_GetValue h other k)"
        by (rule range_visit_keys [OF rv])
      ultimately show ?thesis using Some \<open>c = Some p\<close>
        by (auto simp: mapContext_GetValue_def split: option.splits)
    qed
    from u f g show ?thesis by blast
  qed
qed

text \<open>
  The nil receiver: with an entry to copy, the call panics and returns nothing.
\<close>

theorem Context_Update_nil_receiver_panics:
  "range_visit example_heap (Some 0) [(''a'', VInt 1)] \<and>
   Context_Update example_heap None [(''a'', VInt 1)] = Inl AssignmentToNilMap"
  by (simp add: range_visit_def range_of_def example_heap_def Context_Update_def
      mapContext_SetValue_def)


theorem Context_Update_in_place_witness:
  "range_visit example_heap (Some 0) [(''a'', VInt 1)] \<and>
   (\<exists>h'. Context_Update example_heap (Some 1) [(''a'', VInt 1)] = Inr (Some 1, h') \<and>
      mapContext_GetValue h' (Some 1) ''a'' = (VInt 1, True) \<and>
      mapContext_GetValue h' (Some 1) ''b'' = (VInt 3, True) \<and>
      mapContext_GetValue h' (Some 1) ''c'' = (VNil, False) \<and>
      h' 0 = example_heap 0)"
proof -
  have rv: "range_visit example_heap (Some 0) [(''a'', VInt 1)]"
    by (simp add: range_visit_def range_of_def example_heap_def)
  have ne: "Some (1::nat) \<noteq> None \<or> [(''a'', VInt 1)] = []" by simp
  from Context_Update_in_place [of example_heap "Some 0" "[(''a'', VInt 1)]" "Some 1", rule_format, OF rv]
  have "\<exists>h'. Context_Update example_heap (Some 1) [(''a'', VInt 1)] = Inr (Some 1, h') \<and>
      (\<forall>k. mapContext_GetValue h' (Some 1) k =
         (if snd (mapContext_GetValue example_heap (Some 0) k)
          then mapContext_GetValue example_heap (Some 0) k
          else mapContext_GetValue example_heap (Some 1) k)) \<and>
      (\<forall>a. Some a \<noteq> Some 1 \<longrightarrow> h' a = example_heap a)"
    using ne by blast
  then obtain h' where h': "Context_Update example_heap (Some 1) [(''a'', VInt 1)] = Inr (Some 1, h')"
    "\<And>k. mapContext_GetValue h' (Some 1) k =
         (if snd (mapContext_GetValue example_heap (Some 0) k)
          then mapContext_GetValue example_heap (Some 0) k
          else mapContext_GetValue example_heap (Some 1) k)"
    "\<And>a. Some a \<noteq> Some (1::nat) \<Longrightarrow> h' a = example_heap a"
    by blast
  have "mapContext_GetValue h' (Some 1) ''a'' = (VInt 1, True)"
    "mapContext_GetValue h' (Some 1) ''b'' = (VInt 3, True)"
    "mapContext_GetValue h' (Some 1) ''c'' = (VNil, False)"
    unfolding h'(2) by (simp_all add: mapContext_GetValue_def example_heap_def)
  moreover have "h' 0 = example_heap 0" by (rule h'(3)) simp
  ultimately show ?thesis using rv h'(1) by blast
qed


end
